theory Spec2Isabelle
  imports Complex_Main "HOL-Library.AList" "HOL-Library.Monad_Syntax"
begin

section \<open>JavaScript preliminaries\<close>

text \<open>
  The repository is TypeScript. Three pieces of the language are used by the code verified
  below and are modelled here once:
  \<^item> a nullable reference (\<open>PersistedIndex | null\<close>) is an \<open>option\<close>; reading a property
    through a plain \<open>x.f\<close> throws a \<open>TypeError\<close> when \<open>x\<close> is \<open>null\<close>, reading it through
    \<open>x?.f\<close> yields \<open>undefined\<close> instead, and \<open>a ?? b\<close> is \<open>b\<close> exactly when \<open>a\<close> is
    \<open>null\<close> or \<open>undefined\<close>;
  \<^item> a \<open>Map\<close> keeps its entries in insertion order: \<open>set\<close> on a key that is present
    replaces the value of that entry where it stands, \<open>set\<close> on a new key appends an
    entry (ECMAScript, \<open>Map.prototype.set\<close>); \<open>values()\<close> walks the entries in that order;
  \<^item> a template literal \<open>`${n}`\<close> of a non-negative integer is its decimal numeral.
  What a function throws is a value of \<open>js_error\<close>, and a function that may throw returns a
  sum whose left summand is the thrown value. A thrown value is told by what a \<open>catch\<close> block
  can see of it: \<open>TypeError m\<close> and \<open>Error m\<close> are the built-in error objects with the message
  \<open>m\<close>; \<open>Error_object r\<close> is any other instance of \<open>Error\<close>, \<open>r\<close> being what reading its
  \<open>message\<close> yields, a string or, from a getter that throws, a thrown value; \<open>Thrown r\<close> is a
  value that is not an instance of \<open>Error\<close>, \<open>r\<close> being what \<open>String()\<close> makes of it, a string
  or, for an object without a usable \<open>toString\<close> and \<open>valueOf\<close>, a thrown \<open>TypeError\<close>.
  A number is a real number or one of \<open>NaN\<close>, \<open>Infinity\<close> and \<open>-Infinity\<close>; rounding is not
  modelled.
\<close>

datatype js_error =
    TypeError string
  | Error string
  | Error_object "js_error + string"
  | Thrown "js_error + string"

datatype js_number = Finite real | NaN | PosInfinity | NegInfinity

type_synonym ('k, 'v) js_map = "('k \<times> 'v) list"

fun Map_set :: "('k, 'v) js_map \<Rightarrow> 'k \<Rightarrow> 'v \<Rightarrow> ('k, 'v) js_map" where
  "Map_set [] k v = [(k, v)]"
| "Map_set ((k', v') # m) k v = (if k' = k then (k', v) # m else (k', v') # Map_set m k v)"

fun Map_get :: "('k, 'v) js_map \<Rightarrow> 'k \<Rightarrow> 'v option" where
  "Map_get [] k = None"
| "Map_get ((k', v') # m) k = (if k' = k then Some v' else Map_get m k)"

definition Map_has :: "('k, 'v) js_map \<Rightarrow> 'k \<Rightarrow> bool" where
  "Map_has m k = (Map_get m k \<noteq> None)"

definition Map_values :: "('k, 'v) js_map \<Rightarrow> 'v list" where
  "Map_values m = map snd m"

definition digit :: "nat \<Rightarrow> char" where
  "digit d = ''0123456789'' ! d"

fun string_of_nat :: "nat \<Rightarrow> string" where
  "string_of_nat n =
     (if n < 10 then [digit n] else string_of_nat (n div 10) @ [digit (n mod 10)])"

declare string_of_nat.simps [simp del]

section \<open>The document model\<close>

text \<open>
  The declarations of \<open>IndexedTool\<close> and \<open>PersistedIndex\<close> live in the package
  \<open>@pleaseai/mcp-core\<close>, outside the files at hand.

  Modelled from the spec: the records \<open>ToolDefinition\<close>, \<open>IndexedTool\<close>, \<open>BM25Stats\<close> and
  \<open>PersistedIndex\<close> follow the index file of the specification (\<open>version\<close>, \<open>createdAt\<close>,
  \<open>embeddingProvider\<close>, \<open>embeddingDimensions\<close>, \<open>tools\<close>, \<open>bm25Stats\<close>, \<open>hasEmbeddings\<close>;
  each tool \<open>{tool: {name, title, description, inputSchema}, searchableText, tokens,
  embedding?, serverName}\<close>). The code under verification reads \<open>tools\<close>, \<open>tool.name\<close>,
  \<open>bm25Stats\<close> and \<open>hasEmbeddings\<close> only. It reads \<open>bm25Stats\<close> and \<open>hasEmbeddings\<close> through
  \<open>?.\<close> and \<open>??\<close>, so both fields may be \<open>undefined\<close> in the model (\<open>None\<close>), which covers
  the declared, always-present case as well.
\<close>

record ToolDefinition =
  name :: string
  title :: "string option"
  description :: string
  inputSchema :: string

record IndexedTool =
  tool :: ToolDefinition
  searchableText :: string
  tokens :: "string list"
  embedding :: "real list option"
  serverName :: string

record BM25Stats =
  avgDocLength :: real
  documentFrequencies :: "(string \<times> nat) list"
  totalDocuments :: nat

record PersistedIndex =
  version :: string
  createdAt :: string
  embeddingProvider :: "string option"
  embeddingDimensions :: "nat option"
  tools :: "IndexedTool list"
  bm25Stats :: "BM25Stats option"
  hasEmbeddings :: "bool option"

section \<open>Tool deduplication (\<open>packages/mcp/src/utils/tool-deduplication.ts\<close>)\<close>

text \<open>
  \<open>DEBUG\<close> is the module constant \<open>process.env.MCP_GATEWAY_DEBUG === 'true'\<close>; it is a
  parameter of the model. What \<open>console.error\<close> prints is collected, line by line, in
  \<open>stderr\<close>. \<open>prop_tools\<close> is the property read \<open>index.tools\<close> on a nullable reference,
  \<open>opt_bm25Stats\<close> and \<open>opt_hasEmbeddings\<close> are the reads \<open>index?.bm25Stats\<close> and
  \<open>index?.hasEmbeddings\<close>, \<open>nullish\<close> and \<open>nullish_or\<close> are \<open>??\<close> with an optional and with
  a definite right operand.
\<close>

definition prop_tools :: "PersistedIndex option \<Rightarrow> js_error + IndexedTool list" where
  "prop_tools index =
     (case index of
        None \<Rightarrow> Inl (TypeError ''Cannot read properties of null (reading tools)'')
      | Some i \<Rightarrow> Inr (tools i))"

record merge_state =
  toolMap :: "(string, IndexedTool) js_map"
  overrideCount :: nat
  stderr :: "string list"

definition user_loop_body :: "merge_state \<Rightarrow> IndexedTool \<Rightarrow> merge_state" where
  "user_loop_body s t = s\<lparr>toolMap := Map_set (toolMap s) (name (tool t)) t\<rparr>"

definition project_loop_body :: "bool \<Rightarrow> merge_state \<Rightarrow> IndexedTool \<Rightarrow> merge_state" where
  "project_loop_body DEBUG s t =
     (let s1 = (if DEBUG \<and> Map_has (toolMap s) (name (tool t))
                then s\<lparr>stderr := stderr s @
                         [''[DEBUG] Tool '' @ [CHR 0x27] @ name (tool t) @ [CHR 0x27] @
                          '' from project overrides user version''],
                       overrideCount := overrideCount s + 1\<rparr>
                else s)
      in s1\<lparr>toolMap := Map_set (toolMap s1) (name (tool t)) t\<rparr>)"

definition mergeIndexedTools ::
  "bool \<Rightarrow> PersistedIndex option \<Rightarrow> PersistedIndex option
     \<Rightarrow> js_error + (IndexedTool list \<times> string list)" where
  "mergeIndexedTools DEBUG projectIndex userIndex =
     (let s0 = \<lparr>toolMap = [], overrideCount = 0, stderr = []\<rparr> in
      case (if userIndex \<noteq> None
            then (case prop_tools userIndex of
                    Inl e \<Rightarrow> Inl e
                  | Inr ts \<Rightarrow> Inr (foldl user_loop_body s0 ts))
            else Inr s0) of
        Inl e \<Rightarrow> Inl e
      | Inr s1 \<Rightarrow>
         (case (if projectIndex \<noteq> None
                then (case prop_tools projectIndex of
                        Inl e \<Rightarrow> Inl e
                      | Inr ts \<Rightarrow> Inr (foldl (project_loop_body DEBUG) s1 ts))
                else Inr s1) of
            Inl e \<Rightarrow> Inl e
          | Inr s2 \<Rightarrow>
              (let s3 = (if DEBUG \<and> overrideCount s2 > 0
                         then s2\<lparr>stderr := stderr s2 @
                                  [''[DEBUG] Merged indexes: '' @ string_of_nat (overrideCount s2) @
                                   '' tool(s) overridden by project scope'']\<rparr>
                         else s2)
               in Inr (Map_values (toolMap s3), stderr s3))))"

definition default_stats :: BM25Stats where
  "default_stats = \<lparr>avgDocLength = 0, documentFrequencies = [], totalDocuments = 0\<rparr>"

definition opt_bm25Stats :: "PersistedIndex option \<Rightarrow> BM25Stats option" where
  "opt_bm25Stats index = (case index of None \<Rightarrow> None | Some i \<Rightarrow> bm25Stats i)"

definition opt_hasEmbeddings :: "PersistedIndex option \<Rightarrow> bool option" where
  "opt_hasEmbeddings index = (case index of None \<Rightarrow> None | Some i \<Rightarrow> hasEmbeddings i)"

definition nullish :: "'a option \<Rightarrow> 'a option \<Rightarrow> 'a option" where
  "nullish a b = (case a of None \<Rightarrow> b | Some x \<Rightarrow> Some x)"

definition nullish_or :: "'a option \<Rightarrow> 'a \<Rightarrow> 'a" where
  "nullish_or a b = (case a of None \<Rightarrow> b | Some x \<Rightarrow> x)"

definition selectBM25Stats :: "PersistedIndex option \<Rightarrow> PersistedIndex option \<Rightarrow> BM25Stats" where
  "selectBM25Stats projectIndex userIndex =
     (let baseStats = nullish (opt_bm25Stats projectIndex) (opt_bm25Stats userIndex) in
      case baseStats of
        None \<Rightarrow> default_stats
      | Some s \<Rightarrow> s)"

definition hasAnyEmbeddings :: "PersistedIndex option \<Rightarrow> PersistedIndex option \<Rightarrow> bool" where
  "hasAnyEmbeddings projectIndex userIndex =
     (nullish_or (opt_hasEmbeddings projectIndex) False
      \<or> nullish_or (opt_hasEmbeddings userIndex) False)"


subsection \<open>Vocabulary of the statements\<close>

text \<open>
  \<open>toolName\<close> is the key \<open>tool.tool.name\<close>; \<open>toolsOf\<close> reads a nullable index as its list of
  tools, none for \<open>null\<close>; \<open>insert_tool\<close> is one \<open>toolMap.set(tool.tool.name, tool)\<close>; \<open>keyed\<close>
  says that every entry of a map stands under the name of its own tool.
\<close>

definition toolName :: "IndexedTool \<Rightarrow> string" where
  "toolName t = name (tool t)"

definition toolsOf :: "PersistedIndex option \<Rightarrow> IndexedTool list" where
  "toolsOf index = (case index of None \<Rightarrow> [] | Some i \<Rightarrow> tools i)"

definition insert_tool ::
  "(string, IndexedTool) js_map \<Rightarrow> IndexedTool \<Rightarrow> (string, IndexedTool) js_map" where
  "insert_tool m t = Map_set m (toolName t) t"

fun keyed :: "(string, IndexedTool) js_map \<Rightarrow> bool" where
  "keyed [] = True"
| "keyed ((k, v) # m) = (k = toolName v \<and> keyed m)"

text \<open>
  The merge in the words of the specification, on the output sequence itself: a tool
  whose name is already there replaces the tool of that name where it stands, a tool with a
  new name is appended; the user's tools are inserted first, the project's are overlaid.
  \<open>replaced_by ps t\<close> is the tool of \<open>ps\<close> with the name of \<open>t\<close>, or \<open>t\<close> when there is none.
\<close>

definition spec_overlay :: "IndexedTool list \<Rightarrow> IndexedTool \<Rightarrow> IndexedTool list" where
  "spec_overlay out t =
     (if toolName t \<in> toolName ` set out
      then map (\<lambda>x. if toolName x = toolName t then t else x) out
      else out @ [t])"

definition spec_mergeTools ::
  "PersistedIndex option \<Rightarrow> PersistedIndex option \<Rightarrow> IndexedTool list" where
  "spec_mergeTools project user =
     foldl spec_overlay (foldl spec_overlay [] (toolsOf user)) (toolsOf project)"

definition replaced_by :: "IndexedTool list \<Rightarrow> IndexedTool \<Rightarrow> IndexedTool" where
  "replaced_by ps t =
     (case find (\<lambda>x. toolName x = toolName t) ps of Some x \<Rightarrow> x | None \<Rightarrow> t)"

text \<open>
  Concrete tools and indexes for the examples: a tool is told by its name and server.
  \<open>empty_index\<close> is the index of an empty corpus as the data model has it: no tools, the
  statistics of no documents, no embeddings.
\<close>

definition example_tool :: "string \<Rightarrow> string \<Rightarrow> IndexedTool" where
  "example_tool n s =
     \<lparr>tool = \<lparr>name = n, title = None, description = [], inputSchema = []\<rparr>,
      searchableText = n, tokens = [n], embedding = None, serverName = s\<rparr>"

definition example_index :: "IndexedTool list \<Rightarrow> PersistedIndex" where
  "example_index ts =
     \<lparr>version = ''1'', createdAt = [], embeddingProvider = None, embeddingDimensions = None,
      tools = ts, bm25Stats = None, hasEmbeddings = Some False\<rparr>"

definition empty_index :: PersistedIndex where
  "empty_index = (example_index [])\<lparr>bm25Stats := Some default_stats\<rparr>"

definition example_stats :: "nat \<Rightarrow> BM25Stats" where
  "example_stats n = \<lparr>avgDocLength = 2, documentFrequencies = [(''read'', 1)], totalDocuments = n\<rparr>"

section \<open>Tool execution (class \<open>ToolExecutor\<close>)\<close>





























section \<open>Inverse document frequency of the BM25 strategy\<close>

text \<open>
  Modelled from the spec: the BM25 strategy's source is not among the files at hand. The
  specification gives \<open>IDF(term) = ln(1 + (N - df + 0.5) / (df + 0.5))\<close> with
  \<open>N = totalDocuments\<close> and \<open>df = documentFrequencies[term]\<close>, \<open>0\<close> if absent.

  A JavaScript number is a real number or one of \<open>NaN\<close>, \<open>Infinity\<close> and \<open>-Infinity\<close>
  (\<open>js_number\<close>). Division
  by zero and the logarithm of zero or of a negative number give the three special values
  as IEEE 754 and \<open>Math.log\<close> do; rounding and overflow of the finite values are not
  modelled.
\<close>

definition js_divide :: "real \<Rightarrow> real \<Rightarrow> js_number" where
  "js_divide x y =
     (if y \<noteq> 0 then Finite (x / y)
      else if 0 < x then PosInfinity else if x < 0 then NegInfinity else NaN)"

fun js_plus :: "real \<Rightarrow> js_number \<Rightarrow> js_number" where
  "js_plus a (Finite x) = Finite (a + x)"
| "js_plus a NaN = NaN"
| "js_plus a PosInfinity = PosInfinity"
| "js_plus a NegInfinity = NegInfinity"

fun Math_log :: "js_number \<Rightarrow> js_number" where
  "Math_log (Finite x) = (if 0 < x then Finite (ln x) else if x = 0 then NegInfinity else NaN)"
| "Math_log NaN = NaN"
| "Math_log PosInfinity = PosInfinity"
| "Math_log NegInfinity = NaN"

definition document_frequency :: "BM25Stats \<Rightarrow> string \<Rightarrow> nat" where
  "document_frequency stats q =
     (case map_of (documentFrequencies stats) q of None \<Rightarrow> 0 | Some df \<Rightarrow> df)"

definition IDF :: "real \<Rightarrow> real \<Rightarrow> js_number" where
  "IDF N df = Math_log (js_plus 1 (js_divide (N - df + 0.5) (df + 0.5)))"

definition idf :: "BM25Stats \<Rightarrow> string \<Rightarrow> js_number" where
  "idf stats q = IDF (real (totalDocuments stats)) (real (document_frequency stats q))"

section \<open>The three functions on a store of objects\<close>

text \<open>
  Whether an output shares an object with an input cannot be told from values; it takes
  the store. This second model of \<open>tool-deduplication.ts\<close> keeps the objects in a store, a
  list of objects whose positions are the addresses; \<open>new\<close> appends an object and yields its
  address, so an address below the length of the store before a call is an object that was
  there before the call. An index object holds the address of its array of tools and,
  optionally, the address of its statistics object; an array holds the addresses of its
  elements; the \<open>Map\<close> of the merge is an object of the store whose entries hold addresses
  of tools. A function of this model yields \<open>None\<close> when an address does not hold an object
  of the kind its TypeScript type promises; \<open>wf_input\<close> says that an input does.
  \<open>input_tools\<close> and \<open>input_stats\<close> are the addresses an input index holds, \<open>tool_values\<close> reads
  a list of addresses as the tools they hold, and \<open>name_at\<close> and \<open>ref_insert\<close> are the key of a
  tool address and one \<open>toolMap.set\<close> with it.
\<close>

type_synonym ref = nat

datatype heap_object =
    Index_object ref "ref option" "bool option"
  | Array_object "ref list"
  | Tool_object IndexedTool
  | Stats_object BM25Stats
  | Map_object "(string, ref) js_map"

type_synonym heap = "heap_object list"

definition deref :: "heap \<Rightarrow> ref \<Rightarrow> heap_object option" where
  "deref h r = (if r < length h then Some (h ! r) else None)"

definition alloc :: "heap \<Rightarrow> heap_object \<Rightarrow> heap \<times> ref" where
  "alloc h obj = (h @ [obj], length h)"

definition tool_at :: "heap \<Rightarrow> ref \<Rightarrow> IndexedTool option" where
  "tool_at h r = (case deref h r of Some (Tool_object t) \<Rightarrow> Some t | _ \<Rightarrow> None)"

definition array_at :: "heap \<Rightarrow> ref \<Rightarrow> ref list option" where
  "array_at h r = (case deref h r of Some (Array_object rs) \<Rightarrow> Some rs | _ \<Rightarrow> None)"

definition map_at :: "heap \<Rightarrow> ref \<Rightarrow> (string, ref) js_map option" where
  "map_at h r = (case deref h r of Some (Map_object es) \<Rightarrow> Some es | _ \<Rightarrow> None)"

definition index_tools :: "heap \<Rightarrow> ref \<Rightarrow> ref list option" where
  "index_tools h i =
     (case deref h i of Some (Index_object a s e) \<Rightarrow> array_at h a | _ \<Rightarrow> None)"

definition index_bm25Stats :: "heap \<Rightarrow> ref option \<Rightarrow> ref option option" where
  "index_bm25Stats h index =
     (case index of
        None \<Rightarrow> Some None
      | Some i \<Rightarrow> (case deref h i of Some (Index_object a s e) \<Rightarrow> Some s | _ \<Rightarrow> None))"

definition index_hasEmbeddings :: "heap \<Rightarrow> ref option \<Rightarrow> bool option option" where
  "index_hasEmbeddings h index =
     (case index of
        None \<Rightarrow> Some None
      | Some i \<Rightarrow> (case deref h i of Some (Index_object a s e) \<Rightarrow> Some e | _ \<Rightarrow> None))"

record heap_merge_state =
  store :: heap
  heap_overrideCount :: nat
  heap_stderr :: "string list"

fun for_of :: "('s \<Rightarrow> ref \<Rightarrow> 's option) \<Rightarrow> 's \<Rightarrow> ref list \<Rightarrow> 's option" where
  "for_of body s [] = Some s"
| "for_of body s (r # rs) = (case body s r of None \<Rightarrow> None | Some s' \<Rightarrow> for_of body s' rs)"

definition heap_Map_set :: "heap \<Rightarrow> ref \<Rightarrow> string \<Rightarrow> ref \<Rightarrow> heap option" where
  "heap_Map_set h m k v =
     (case map_at h m of None \<Rightarrow> None | Some es \<Rightarrow> Some (h[m := Map_object (Map_set es k v)]))"

definition heap_user_loop_body :: "ref \<Rightarrow> heap_merge_state \<Rightarrow> ref \<Rightarrow> heap_merge_state option" where
  "heap_user_loop_body m s t =
     do {
       tv \<leftarrow> tool_at (store s) t;
       h \<leftarrow> heap_Map_set (store s) m (name (tool tv)) t;
       Some (s\<lparr>store := h\<rparr>)
     }"

definition heap_project_loop_body ::
  "bool \<Rightarrow> ref \<Rightarrow> heap_merge_state \<Rightarrow> ref \<Rightarrow> heap_merge_state option" where
  "heap_project_loop_body DEBUG m s t =
     do {
       tv \<leftarrow> tool_at (store s) t;
       es \<leftarrow> map_at (store s) m;
       let s1 = (if DEBUG \<and> Map_has es (name (tool tv))
                 then s\<lparr>heap_stderr := heap_stderr s @
                          [''[DEBUG] Tool '' @ [CHR 0x27] @ name (tool tv) @ [CHR 0x27] @
                           '' from project overrides user version''],
                        heap_overrideCount := heap_overrideCount s + 1\<rparr>
                 else s);
       h \<leftarrow> heap_Map_set (store s1) m (name (tool tv)) t;
       Some (s1\<lparr>store := h\<rparr>)
     }"

definition mergeIndexedTools_heap ::
  "bool \<Rightarrow> heap \<Rightarrow> ref option \<Rightarrow> ref option \<Rightarrow> (heap \<times> ref \<times> string list) option" where
  "mergeIndexedTools_heap DEBUG h projectIndex userIndex =
     do {
       let (h0, m) = alloc h (Map_object []);
       let s0 = \<lparr>store = h0, heap_overrideCount = 0, heap_stderr = []\<rparr>;
       s1 \<leftarrow> (case userIndex of
                None \<Rightarrow> Some s0
              | Some i \<Rightarrow> do { ts \<leftarrow> index_tools (store s0) i; for_of (heap_user_loop_body m) s0 ts });
       s2 \<leftarrow> (case projectIndex of
                None \<Rightarrow> Some s1
              | Some i \<Rightarrow> do { ts \<leftarrow> index_tools (store s1) i;
                             for_of (heap_project_loop_body DEBUG m) s1 ts });
       let s3 = (if DEBUG \<and> heap_overrideCount s2 > 0
                 then s2\<lparr>heap_stderr := heap_stderr s2 @
                          [''[DEBUG] Merged indexes: '' @ string_of_nat (heap_overrideCount s2) @
                           '' tool(s) overridden by project scope'']\<rparr>
                 else s2);
       es \<leftarrow> map_at (store s3) m;
       let (h', r) = alloc (store s3) (Array_object (Map_values es));
       Some (h', r, heap_stderr s3)
     }"

definition selectBM25Stats_heap :: "heap \<Rightarrow> ref option \<Rightarrow> ref option \<Rightarrow> (heap \<times> ref) option" where
  "selectBM25Stats_heap h projectIndex userIndex =
     do {
       ps \<leftarrow> index_bm25Stats h projectIndex;
       us \<leftarrow> index_bm25Stats h userIndex;
       let baseStats = nullish ps us;
       (case baseStats of
          None \<Rightarrow> Some (alloc h (Stats_object default_stats))
        | Some r \<Rightarrow> Some (h, r))
     }"

definition hasAnyEmbeddings_heap :: "heap \<Rightarrow> ref option \<Rightarrow> ref option \<Rightarrow> bool option" where
  "hasAnyEmbeddings_heap h projectIndex userIndex =
     do {
       pe \<leftarrow> index_hasEmbeddings h projectIndex;
       ue \<leftarrow> index_hasEmbeddings h userIndex;
       Some (nullish_or pe False \<or> nullish_or ue False)
     }"

definition stats_at :: "heap \<Rightarrow> ref \<Rightarrow> BM25Stats option" where
  "stats_at h r = (case deref h r of Some (Stats_object st) \<Rightarrow> Some st | _ \<Rightarrow> None)"

definition wf_index :: "heap \<Rightarrow> ref \<Rightarrow> bool" where
  "wf_index h i =
     (case deref h i of
        Some (Index_object a s e) \<Rightarrow>
          (case array_at h a of
             Some rs \<Rightarrow> list_all (\<lambda>r. tool_at h r \<noteq> None) rs
           | None \<Rightarrow> False) \<and>
          (case s of None \<Rightarrow> True | Some sr \<Rightarrow> stats_at h sr \<noteq> None)
      | _ \<Rightarrow> False)"

definition wf_input :: "heap \<Rightarrow> ref option \<Rightarrow> bool" where
  "wf_input h index = (case index of None \<Rightarrow> True | Some i \<Rightarrow> wf_index h i)"

definition input_tools :: "heap \<Rightarrow> ref option \<Rightarrow> ref list" where
  "input_tools h index =
     (case index of
        None \<Rightarrow> []
      | Some i \<Rightarrow> (case index_tools h i of None \<Rightarrow> [] | Some rs \<Rightarrow> rs))"

definition input_stats :: "heap \<Rightarrow> ref option \<Rightarrow> ref option" where
  "input_stats h index =
     (case index of
        None \<Rightarrow> None
      | Some i \<Rightarrow> (case deref h i of Some (Index_object a s e) \<Rightarrow> s | _ \<Rightarrow> None))"

definition tool_values :: "heap \<Rightarrow> ref list \<Rightarrow> IndexedTool list" where
  "tool_values h rs = List.map_filter (tool_at h) rs"

definition example_heap :: heap where
  "example_heap =
     [Index_object 1 (Some 2) (Some False),
      Array_object [3],
      Stats_object (example_stats 1),
      Tool_object (example_tool ''a'' ''s'')]"


definition name_at :: "heap \<Rightarrow> ref \<Rightarrow> string" where
  "name_at h r = (case tool_at h r of Some t \<Rightarrow> toolName t | None \<Rightarrow> [])"

definition ref_insert :: "heap \<Rightarrow> (string, ref) js_map \<Rightarrow> ref \<Rightarrow> (string, ref) js_map" where
  "ref_insert h es r = Map_set es (name_at h r) r"

section \<open>Properties of the insertion-ordered map\<close>

lemma Map_set_update: "Map_set m k v = AList.update k v m"
  by (induction m) auto

lemma Map_get_map_of: "Map_get m k = map_of m k"
  by (induction m) auto

lemma Map_has_iff: "Map_has m k \<longleftrightarrow> k \<in> fst ` set m"
  by (simp add: Map_has_def Map_get_map_of map_of_eq_None_iff)

lemma Map_set_keys:
  "map fst (Map_set m k v) = (if k \<in> fst ` set m then map fst m else map fst m @ [k])"
  by (simp add: Map_set_update update_keys)

section \<open>Properties of the merge\<close>

subsection \<open>What the two loops leave in the map\<close>

lemma toolMap_user_loop:
  "toolMap (foldl user_loop_body s ts) = foldl insert_tool (toolMap s) ts"
  by (induction ts arbitrary: s) (simp_all add: user_loop_body_def insert_tool_def toolName_def)

lemma toolMap_project_loop:
  "toolMap (foldl (project_loop_body dbg) s ts) = foldl insert_tool (toolMap s) ts"
  by (induction ts arbitrary: s) (simp_all add: project_loop_body_def insert_tool_def toolName_def Let_def)

lemma mergeIndexedTools_returns:
  "\<exists>log. mergeIndexedTools dbg p u =
     Inr (Map_values (foldl insert_tool [] (toolsOf u @ toolsOf p)), log)"
  by (cases p; cases u)
     (simp_all add: mergeIndexedTools_def prop_tools_def toolsOf_def Let_def
        toolMap_user_loop toolMap_project_loop)


lemma insert_tool_keys:
  "map fst (insert_tool m t) =
     (if toolName t \<in> fst ` set m then map fst m else map fst m @ [toolName t])"
  by (simp add: insert_tool_def Map_set_keys)

lemma insert_tool_map_of: "map_of (insert_tool m t) = (map_of m)(toolName t \<mapsto> t)"
  by (simp add: insert_tool_def Map_set_update update_conv')

lemma insert_tool_distinct: "distinct (map fst m) \<Longrightarrow> distinct (map fst (insert_tool m t))"
  by (simp add: insert_tool_def Map_set_update distinct_update)

lemma insert_tool_keyed: "keyed m \<Longrightarrow> keyed (insert_tool m t)"
  unfolding insert_tool_def
  by (induction m rule: keyed.induct) auto

lemma build_distinct: "distinct (map fst m) \<Longrightarrow> distinct (map fst (foldl insert_tool m xs))"
  by (induction xs arbitrary: m) (simp_all add: insert_tool_distinct)

lemma build_keyed: "keyed m \<Longrightarrow> keyed (foldl insert_tool m xs)"
  by (induction xs arbitrary: m) (simp_all add: insert_tool_keyed)

lemma build_key_set:
  "fst ` set (foldl insert_tool m xs) = fst ` set m \<union> toolName ` set xs"
proof (induction xs arbitrary: m)
  case Nil
  show ?case by simp
next
  case (Cons t xs)
  have "fst ` set (insert_tool m t) = insert (toolName t) (fst ` set m)"
    using insert_tool_keys [of m t] by (metis (no_types, lifting) insert_absorb list.set_map set_append list.simps(15) Un_insert_right sup_bot.right_neutral empty_set)
  then show ?case using Cons.IH [of "insert_tool m t"] by auto
qed

lemma build_prefix: "\<exists>ys. map fst (foldl insert_tool m xs) = map fst m @ ys"
proof (induction xs arbitrary: m)
  case Nil
  show ?case by simp
next
  case (Cons t xs)
  obtain ys where "map fst (foldl insert_tool (insert_tool m t) xs) = map fst (insert_tool m t) @ ys"
    using Cons.IH by blast
  then show ?case by (auto simp: insert_tool_keys)
qed

lemma build_map_of:
  "map_of (foldl insert_tool m xs) = map_of m ++ map_of (rev (map (\<lambda>t. (toolName t, t)) xs))"
proof (induction xs arbitrary: m)
  case Nil
  show ?case by simp
next
  case (Cons t xs)
  show ?case
    by (rule ext) (simp add: Cons.IH insert_tool_map_of map_add_def split: option.splits)
qed

lemma keyed_names: "keyed m \<Longrightarrow> map toolName (Map_values m) = map fst m"
  unfolding Map_values_def by (induction m rule: keyed.induct) auto

lemma keyed_filter:
  "keyed m \<Longrightarrow> distinct (map fst m) \<Longrightarrow> map_of m n = Some v
     \<Longrightarrow> filter (\<lambda>x. toolName x = n) (Map_values m) = [v]"
proof (induction m)
  case Nil
  then show ?case by simp
next
  case (Cons e m)
  obtain k w where e: "e = (k, w)" by (cases e)
  have kw: "k = toolName w" and km: "keyed m" using Cons.prems(1) by (auto simp: e)
  have nk: "k \<notin> fst ` set m" and dm: "distinct (map fst m)" using Cons.prems(2) by (auto simp: e)
  show ?case
  proof (cases "k = n")
    case True
    then have v: "w = v" using Cons.prems(3) by (simp add: e)
    have "filter (\<lambda>x. toolName x = n) (Map_values m) = []"
      using nk True keyed_names [OF km]
      by (metis (mono_tags, lifting) filter_False image_set list.set_map image_eqI)
    then show ?thesis using True kw v by (simp add: e Map_values_def)
  next
    case False
    then have "map_of m n = Some v" using Cons.prems(3) by (simp add: e)
    then show ?thesis using Cons.IH [OF km dm] False kw by (simp add: e Map_values_def)
  qed
qed

lemma last_occurrence:
  "n \<in> toolName ` set xs \<Longrightarrow>
     map_of (rev (map (\<lambda>t. (toolName t, t)) xs)) n = Some (last (filter (\<lambda>x. toolName x = n) xs))"
proof (induction xs rule: rev_induct)
  case Nil
  then show ?case by simp
next
  case (snoc t xs)
  then show ?case by (cases "toolName t = n") auto
qed

lemma build_not_in_map_of:
  "n \<notin> toolName ` set xs \<Longrightarrow> map_of (foldl insert_tool m xs) n = map_of m n"
  by (simp add: build_map_of map_add_def map_of_eq_None_iff [THEN iffD2] image_image split: option.splits)


subsection \<open>The map's values against the specification's overlay\<close>

lemma Map_set_values_overlay:
  "keyed m \<Longrightarrow> distinct (map fst m) \<Longrightarrow>
     Map_values (insert_tool m t) = spec_overlay (Map_values m) t"
proof (induction m)
  case Nil
  show ?case by (simp add: insert_tool_def Map_values_def spec_overlay_def)
next
  case (Cons e m)
  obtain k w where e: "e = (k, w)" by (cases e)
  have kw: "k = toolName w" and km: "keyed m" using Cons.prems(1) by (auto simp: e)
  have nk: "k \<notin> fst ` set m" and dm: "distinct (map fst m)" using Cons.prems(2) by (auto simp: e)
  have names: "toolName ` set (Map_values m) = fst ` set m"
    using keyed_names [OF km] by (metis list.set_map)
  show ?case
  proof (cases "k = toolName t")
    case True
    have "\<forall>x \<in> set (Map_values m). toolName x \<noteq> toolName t"
      using nk True names by (metis image_eqI)
    then have "map (\<lambda>x. if toolName x = toolName t then t else x) (Map_values m) = Map_values m"
      by (simp add: map_idI)
    then show ?thesis using True kw
      by (simp add: e insert_tool_def Map_values_def spec_overlay_def)
  next
    case False
    have ih: "Map_values (insert_tool m t) = spec_overlay (Map_values m) t"
      using Cons.IH [OF km dm] .
    show ?thesis using False kw ih
      by (auto simp: e insert_tool_def Map_values_def spec_overlay_def)
  qed
qed

lemma build_values_overlay:
  "keyed m \<Longrightarrow> distinct (map fst m) \<Longrightarrow>
     Map_values (foldl insert_tool m xs) = foldl spec_overlay (Map_values m) xs"
proof (induction xs arbitrary: m)
  case Nil
  show ?case by simp
next
  case (Cons t xs)
  show ?case
    using Cons.IH [OF insert_tool_keyed [OF Cons.prems(1)] insert_tool_distinct [OF Cons.prems(2)]]
      Map_set_values_overlay [OF Cons.prems]
    by simp
qed

lemma keyed_Nil: "keyed []"
  by simp

lemma build_eq_spec:
  "Map_values (foldl insert_tool [] (toolsOf u @ toolsOf p)) = spec_mergeTools p u"
  using build_values_overlay [OF keyed_Nil, of "toolsOf u @ toolsOf p"]
  by (simp add: spec_mergeTools_def Map_values_def)


lemma spec_overlay_names:
  "map toolName (spec_overlay out t) =
     (if toolName t \<in> toolName ` set out then map toolName out else map toolName out @ [toolName t])"
  by (auto simp: spec_overlay_def)

lemma find_None_names: "n \<notin> toolName ` set ps \<Longrightarrow> find (\<lambda>x. toolName x = n) ps = None"
  by (induction ps) auto

lemma overlay_closed_form:
  "distinct (map toolName out) \<Longrightarrow> distinct (map toolName ps) \<Longrightarrow>
     foldl spec_overlay out ps =
       map (replaced_by ps) out @ filter (\<lambda>x. toolName x \<notin> toolName ` set out) ps"
proof (induction ps arbitrary: out)
  case Nil
  show ?case by (simp add: replaced_by_def map_idI)
next
  case (Cons t ps)
  have tps: "toolName t \<notin> toolName ` set ps" and dps: "distinct (map toolName ps)"
    using Cons.prems(2) by auto
  have ft: "replaced_by ps t = t"
    by (simp add: replaced_by_def find_None_names [OF tps])
  have other: "\<And>x. toolName x \<noteq> toolName t \<Longrightarrow> replaced_by (t # ps) x = replaced_by ps x"
    by (auto simp: replaced_by_def)
  have same: "\<And>x. toolName x = toolName t \<Longrightarrow> replaced_by (t # ps) x = t"
    by (simp add: replaced_by_def)
  show ?case
  proof (cases "toolName t \<in> toolName ` set out")
    case True
    let ?out' = "map (\<lambda>x. if toolName x = toolName t then t else x) out"
    have o': "spec_overlay out t = ?out'" using True by (simp add: spec_overlay_def)
    have n': "map toolName ?out' = map toolName out" by (induction out) auto
    then have s': "toolName ` set ?out' = toolName ` set out" by (metis list.set_map)
    have d': "distinct (map toolName ?out')" using Cons.prems(1) unfolding n' .
    have "map (replaced_by ps) ?out' = map (replaced_by (t # ps)) out"
      using ft other same by (induction out) auto
    then show ?thesis
      using Cons.IH [OF d' dps] True o' s' by simp
  next
    case False
    have o': "spec_overlay out t = out @ [t]" using False by (simp add: spec_overlay_def)
    have d': "distinct (map toolName (out @ [t]))" using Cons.prems(1) False by simp
    have m: "map (replaced_by ps) out = map (replaced_by (t # ps)) out"
    proof (rule map_cong [OF refl])
      fix x assume "x \<in> set out"
      then have "toolName x \<noteq> toolName t" using False by (metis image_eqI)
      then show "replaced_by ps x = replaced_by (t # ps) x" using other by simp
    qed
    have f: "filter (\<lambda>x. toolName x \<notin> toolName ` set (out @ [t])) ps =
             filter (\<lambda>x. toolName x \<notin> toolName ` set out) ps"
    proof (rule filter_cong [OF refl])
      fix x assume "x \<in> set ps"
      then have "toolName x \<noteq> toolName t" using tps by (metis image_eqI)
      then show "(toolName x \<notin> toolName ` set (out @ [t])) = (toolName x \<notin> toolName ` set out)"
        by auto
    qed
    have "foldl spec_overlay out (t # ps) = foldl spec_overlay (out @ [t]) ps"
      by (simp add: o')
    also have "\<dots> = map (replaced_by ps) (out @ [t]) @
                    filter (\<lambda>x. toolName x \<notin> toolName ` set (out @ [t])) ps"
      by (rule Cons.IH [OF d' dps])
    also have "\<dots> = map (replaced_by (t # ps)) out @ t #
                    filter (\<lambda>x. toolName x \<notin> toolName ` set out) ps"
      unfolding f by (simp add: m ft)
    also have "\<dots> = map (replaced_by (t # ps)) out @
                    filter (\<lambda>x. toolName x \<notin> toolName ` set out) (t # ps)"
      using False by simp
    finally show ?thesis .
  qed
qed

lemma overlay_from_empty:
  "distinct (map toolName us) \<Longrightarrow> foldl spec_overlay [] us = us"
proof (induction us rule: rev_induct)
  case Nil
  show ?case by simp
next
  case (snoc t us)
  then show ?case by (auto simp: spec_overlay_def)
qed

lemma spec_mergeTools_closed_form:
  assumes "distinct (map toolName (toolsOf p))" and "distinct (map toolName (toolsOf u))"
  shows "spec_mergeTools p u =
           map (replaced_by (toolsOf p)) (toolsOf u) @
           filter (\<lambda>x. toolName x \<notin> toolName ` set (toolsOf u)) (toolsOf p)"
  using overlay_closed_form [OF assms(2) assms(1)] overlay_from_empty [OF assms(2)]
  by (simp add: spec_mergeTools_def)


subsection \<open>The entry of a name\<close>

lemma filter_distinct_name:
  "distinct (map toolName xs) \<Longrightarrow> t \<in> set xs \<Longrightarrow> filter (\<lambda>x. toolName x = toolName t) xs = [t]"
proof (induction xs)
  case Nil
  then show ?case by simp
next
  case (Cons a xs)
  have nx: "toolName a \<notin> toolName ` set xs" using Cons.prems(1) by simp
  show ?case
  proof (cases "t = a")
    case True
    have "filter (\<lambda>x. toolName x = toolName a) xs = []"
      using nx by (induction xs) auto
    then show ?thesis using True by simp
  next
    case False
    then have tin: "t \<in> set xs" using Cons.prems(2) by simp
    then have "toolName a \<noteq> toolName t" using nx by (metis image_eqI)
    then show ?thesis using Cons.IH tin Cons.prems(1) by simp
  qed
qed

lemma build_entry:
  assumes "n \<in> toolName ` set xs"
  shows "filter (\<lambda>x. toolName x = n) (Map_values (foldl insert_tool [] xs)) =
           [last (filter (\<lambda>x. toolName x = n) xs)]"
proof -
  have "map_of (foldl insert_tool [] xs) n = Some (last (filter (\<lambda>x. toolName x = n) xs))"
    by (simp add: build_map_of last_occurrence [OF assms])
  moreover have "keyed (foldl insert_tool [] xs)"
    by (rule build_keyed [OF keyed_Nil])
  moreover have "distinct (map fst (foldl insert_tool [] xs))"
    by (rule build_distinct) simp
  ultimately show ?thesis
    using keyed_filter by blast
qed

lemma last_filter_append:
  "n \<in> toolName ` set ps \<Longrightarrow>
     last (filter (\<lambda>x. toolName x = n) (us @ ps)) = last (filter (\<lambda>x. toolName x = n) ps)"
proof -
  assume "n \<in> toolName ` set ps"
  then have "filter (\<lambda>x. toolName x = n) ps \<noteq> []"
    by (auto simp: filter_empty_conv)
  then show ?thesis by simp
qed

text \<open>
  Claim C1. For a project index and a user index and a tool name present in both tool
  lists, the merged list has exactly one entry of that name and it is the project's tool of
  that name: the last one of that name in the project's list, which is the only one when
  the project's names are unique.
\<close>

theorem mergeIndexedTools_project_wins:
  assumes "t \<in> set (tools projectIndex)"
    and "toolName t \<in> toolName ` set (tools userIndex)"
  shows "\<exists>merged log.
           mergeIndexedTools DEBUG (Some projectIndex) (Some userIndex) = Inr (merged, log) \<and>
           filter (\<lambda>x. toolName x = toolName t) merged =
             [last (filter (\<lambda>x. toolName x = toolName t) (tools projectIndex))] \<and>
           (distinct (map toolName (tools projectIndex)) \<longrightarrow>
              filter (\<lambda>x. toolName x = toolName t) merged = [t])"
proof -
  let ?us = "tools userIndex" and ?ps = "tools projectIndex"
  let ?merged = "Map_values (foldl insert_tool [] (?us @ ?ps))"
  obtain log where ret:
    "mergeIndexedTools DEBUG (Some projectIndex) (Some userIndex) = Inr (?merged, log)"
    using mergeIndexedTools_returns [of DEBUG "Some projectIndex" "Some userIndex"]
    by (auto simp: toolsOf_def)
  have inp: "toolName t \<in> toolName ` set ?ps" using assms(1) by simp
  then have "toolName t \<in> toolName ` set (?us @ ?ps)" by auto
  then have entry: "filter (\<lambda>x. toolName x = toolName t) ?merged =
      [last (filter (\<lambda>x. toolName x = toolName t) ?ps)]"
    using build_entry [of "toolName t" "?us @ ?ps"] last_filter_append [OF inp, of ?us] by simp
  have "distinct (map toolName ?ps) \<longrightarrow> filter (\<lambda>x. toolName x = toolName t) ?merged = [t]"
    using entry filter_distinct_name [of ?ps t] assms(1) by simp
  then show ?thesis using ret entry by blast
qed

theorem mergeIndexedTools_project_wins_witness:
  "example_tool ''b'' ''project'' \<in>
     set (tools (example_index [example_tool ''a'' ''project'', example_tool ''b'' ''project''])) \<and>
   toolName (example_tool ''b'' ''project'') \<in>
     toolName ` set (tools (example_index [example_tool ''b'' ''user'', example_tool ''c'' ''user''])) \<and>
   distinct (map toolName
     (tools (example_index [example_tool ''a'' ''project'', example_tool ''b'' ''project'']))) \<and>
   (\<exists>merged log.
      mergeIndexedTools False
        (Some (example_index [example_tool ''a'' ''project'', example_tool ''b'' ''project'']))
        (Some (example_index [example_tool ''b'' ''user'', example_tool ''c'' ''user'']))
        = Inr (merged, log) \<and>
      filter (\<lambda>x. toolName x = toolName (example_tool ''b'' ''project'')) merged =
        [example_tool ''b'' ''project''])"
proof -
  let ?p = "example_index [example_tool ''a'' ''project'', example_tool ''b'' ''project'']"
  let ?u = "example_index [example_tool ''b'' ''user'', example_tool ''c'' ''user'']"
  let ?t = "example_tool ''b'' ''project''"
  have h1: "?t \<in> set (tools ?p)" by (simp add: example_index_def)
  have h2: "toolName ?t \<in> toolName ` set (tools ?u)"
    by (simp add: example_index_def example_tool_def toolName_def)
  have h3: "distinct (map toolName (tools ?p))"
    by (simp add: example_index_def example_tool_def toolName_def)
  show ?thesis
    using mergeIndexedTools_project_wins [OF h1 h2, of False] h1 h2 h3 by blast
qed

subsection \<open>Order\<close>

lemma spec_mergeTools_example:
  assumes "toolName a = ''a''" "toolName b = ''b''" "toolName b' = ''b''" "toolName c = ''c''"
    and "tools projectIndex = [a, b]" and "tools userIndex = [b', c]"
  shows "spec_mergeTools (Some projectIndex) (Some userIndex) = [b, c, a]"
  using assms by (simp add: spec_mergeTools_def toolsOf_def spec_overlay_def)

text \<open>
  Claim C2. The merged list is the one the specification describes: the user's tools are
  inserted in their order, then the project's tools are overlaid, a tool of a name already
  there taking the place of the tool of that name and a tool of a new name going to the
  end. When the names of each index are unique this is the user's list, each tool replaced
  by the project's tool of its name if there is one, followed by the project's tools of
  other names in the project's order. For a project \<open>[a, b]\<close> and a user \<open>[b, c]\<close> the result
  is the project's \<open>b\<close>, then \<open>c\<close>, then \<open>a\<close>.
\<close>

theorem mergeIndexedTools_order:
  "(\<exists>log. mergeIndexedTools DEBUG p u = Inr (spec_mergeTools p u, log)) \<and>
   (distinct (map toolName (toolsOf p)) \<and> distinct (map toolName (toolsOf u)) \<longrightarrow>
      spec_mergeTools p u =
        map (replaced_by (toolsOf p)) (toolsOf u) @
        filter (\<lambda>x. toolName x \<notin> toolName ` set (toolsOf u)) (toolsOf p)) \<and>
   (toolName a = ''a'' \<and> toolName b = ''b'' \<and> toolName b' = ''b'' \<and> toolName c = ''c'' \<and>
    tools projectIndex = [a, b] \<and> tools userIndex = [b', c] \<longrightarrow>
      (\<exists>log. mergeIndexedTools DEBUG (Some projectIndex) (Some userIndex) = Inr ([b, c, a], log)))"
proof (intro conjI impI)
  show "\<exists>log. mergeIndexedTools DEBUG p u = Inr (spec_mergeTools p u, log)"
    using mergeIndexedTools_returns [of DEBUG p u] unfolding build_eq_spec .
next
  assume "distinct (map toolName (toolsOf p)) \<and> distinct (map toolName (toolsOf u))"
  then show "spec_mergeTools p u =
        map (replaced_by (toolsOf p)) (toolsOf u) @
        filter (\<lambda>x. toolName x \<notin> toolName ` set (toolsOf u)) (toolsOf p)"
    by (simp add: spec_mergeTools_closed_form)
next
  assume h: "toolName a = ''a'' \<and> toolName b = ''b'' \<and> toolName b' = ''b'' \<and> toolName c = ''c'' \<and>
    tools projectIndex = [a, b] \<and> tools userIndex = [b', c]"
  then have "spec_mergeTools (Some projectIndex) (Some userIndex) = [b, c, a]"
    using spec_mergeTools_example [of a b b' c projectIndex userIndex] by blast
  then show "\<exists>log. mergeIndexedTools DEBUG (Some projectIndex) (Some userIndex) = Inr ([b, c, a], log)"
    using mergeIndexedTools_returns [of DEBUG "Some projectIndex" "Some userIndex"]
    unfolding build_eq_spec by simp
qed

lemma example_names:
  "toolName (example_tool n s) = n"
  by (simp add: example_tool_def toolName_def)

lemma example_tools: "tools (example_index ts) = ts"
  by (simp add: example_index_def)

theorem mergeIndexedTools_order_witness:
  "distinct (map toolName (toolsOf
     (Some (example_index [example_tool ''a'' ''project'', example_tool ''b'' ''project''])))) \<and>
   distinct (map toolName (toolsOf
     (Some (example_index [example_tool ''b'' ''user'', example_tool ''c'' ''user''])))) \<and>
   toolName (example_tool ''a'' ''project'') = ''a'' \<and>
   toolName (example_tool ''b'' ''project'') = ''b'' \<and>
   toolName (example_tool ''b'' ''user'') = ''b'' \<and>
   toolName (example_tool ''c'' ''user'') = ''c'' \<and>
   tools (example_index [example_tool ''a'' ''project'', example_tool ''b'' ''project''])
     = [example_tool ''a'' ''project'', example_tool ''b'' ''project''] \<and>
   tools (example_index [example_tool ''b'' ''user'', example_tool ''c'' ''user''])
     = [example_tool ''b'' ''user'', example_tool ''c'' ''user''] \<and>
   (\<exists>log. mergeIndexedTools True
      (Some (example_index [example_tool ''a'' ''project'', example_tool ''b'' ''project'']))
      (Some (example_index [example_tool ''b'' ''user'', example_tool ''c'' ''user'']))
      = Inr ([example_tool ''b'' ''project'', example_tool ''c'' ''user'',
              example_tool ''a'' ''project''], log))"
proof -
  let ?p = "example_index [example_tool ''a'' ''project'', example_tool ''b'' ''project'']"
  let ?u = "example_index [example_tool ''b'' ''user'', example_tool ''c'' ''user'']"
  have h: "toolName (example_tool ''a'' ''project'') = ''a'' \<and>
     toolName (example_tool ''b'' ''project'') = ''b'' \<and>
     toolName (example_tool ''b'' ''user'') = ''b'' \<and>
     toolName (example_tool ''c'' ''user'') = ''c'' \<and>
     tools ?p = [example_tool ''a'' ''project'', example_tool ''b'' ''project''] \<and>
     tools ?u = [example_tool ''b'' ''user'', example_tool ''c'' ''user'']"
    by (simp add: example_names example_tools)
  have d: "distinct (map toolName (toolsOf (Some ?p))) \<and> distinct (map toolName (toolsOf (Some ?u)))"
    by (simp add: toolsOf_def example_names example_tools)
  from mergeIndexedTools_order [of True "Some ?p" "Some ?u" "example_tool ''a'' ''project''"
      "example_tool ''b'' ''project''" "example_tool ''b'' ''user''" "example_tool ''c'' ''user''" ?p ?u]
  have "\<exists>log. mergeIndexedTools True (Some ?p) (Some ?u)
      = Inr ([example_tool ''b'' ''project'', example_tool ''c'' ''user'',
              example_tool ''a'' ''project''], log)"
    using h by blast
  then show ?thesis using h d by blast
qed


subsection \<open>Unique names and length\<close>

lemma build_names:
  "map toolName (Map_values (foldl insert_tool [] xs)) = map fst (foldl insert_tool [] xs)"
  by (rule keyed_names [OF build_keyed [OF keyed_Nil]])

lemma build_names_distinct: "distinct (map toolName (Map_values (foldl insert_tool [] xs)))"
  unfolding build_names by (rule build_distinct) simp

lemma build_length:
  "length (Map_values (foldl insert_tool [] xs)) = card (toolName ` set xs)"
proof -
  have "length (Map_values (foldl insert_tool [] xs)) = length (map fst (foldl insert_tool [] xs))"
    by (simp add: Map_values_def)
  also have "\<dots> = card (set (map fst (foldl insert_tool [] xs)))"
    by (rule distinct_card [symmetric]) (rule build_distinct, simp)
  also have "\<dots> = card (toolName ` set xs)"
    using build_key_set [of "[]" xs] by simp
  finally show ?thesis .
qed

text \<open>
  Claim C3, as amended. The merged list holds each tool name at most once and has as many
  tools as there are names in the two inputs together. When no name is in both inputs and
  no name is twice in one of them, that is the project's tool count plus the user's.
\<close>

theorem mergeIndexedTools_unique_names:
  "\<exists>merged log.
     mergeIndexedTools DEBUG p u = Inr (merged, log) \<and>
     distinct (map toolName merged) \<and>
     length merged = card (toolName ` set (toolsOf p) \<union> toolName ` set (toolsOf u)) \<and>
     (distinct (map toolName (toolsOf p)) \<and> distinct (map toolName (toolsOf u)) \<and>
      toolName ` set (toolsOf p) \<inter> toolName ` set (toolsOf u) = {} \<longrightarrow>
        length merged = length (toolsOf p) + length (toolsOf u))"
proof -
  let ?merged = "Map_values (foldl insert_tool [] (toolsOf u @ toolsOf p))"
  let ?P = "toolName ` set (toolsOf p)" and ?U = "toolName ` set (toolsOf u)"
  obtain log where ret: "mergeIndexedTools DEBUG p u = Inr (?merged, log)"
    using mergeIndexedTools_returns by blast
  have d: "distinct (map toolName ?merged)" by (rule build_names_distinct)
  have l: "length ?merged = card (?P \<union> ?U)"
    unfolding build_length by (simp add: image_Un Un_commute)
  have "length ?merged = length (toolsOf p) + length (toolsOf u)"
    if h: "distinct (map toolName (toolsOf p)) \<and> distinct (map toolName (toolsOf u)) \<and> ?P \<inter> ?U = {}"
  proof -
    have "card (?P \<union> ?U) = card ?P + card ?U"
      using h by (intro card_Un_disjoint) auto
    moreover have "card ?P = length (toolsOf p)"
      using h distinct_card [of "map toolName (toolsOf p)"] by simp
    moreover have "card ?U = length (toolsOf u)"
      using h distinct_card [of "map toolName (toolsOf u)"] by simp
    ultimately show ?thesis using l by simp
  qed
  then show ?thesis using ret d l by blast
qed

theorem mergeIndexedTools_unique_names_witness:
  "distinct (map toolName (toolsOf
     (Some (example_index [example_tool ''a'' ''project'', example_tool ''b'' ''project''])))) \<and>
   distinct (map toolName (toolsOf (Some (example_index [example_tool ''c'' ''user''])))) \<and>
   toolName ` set (toolsOf
     (Some (example_index [example_tool ''a'' ''project'', example_tool ''b'' ''project''])))
   \<inter> toolName ` set (toolsOf (Some (example_index [example_tool ''c'' ''user'']))) = {} \<and>
   (\<exists>merged log.
      mergeIndexedTools False
        (Some (example_index [example_tool ''a'' ''project'', example_tool ''b'' ''project'']))
        (Some (example_index [example_tool ''c'' ''user''])) = Inr (merged, log) \<and>
      distinct (map toolName merged) \<and>
      length merged = 2 + 1)"
proof -
  let ?p = "Some (example_index [example_tool ''a'' ''project'', example_tool ''b'' ''project''])"
  let ?u = "Some (example_index [example_tool ''c'' ''user''])"
  have h: "distinct (map toolName (toolsOf ?p)) \<and> distinct (map toolName (toolsOf ?u)) \<and>
      toolName ` set (toolsOf ?p) \<inter> toolName ` set (toolsOf ?u) = {}"
    by (simp add: toolsOf_def example_names example_tools)
  have l: "length (toolsOf ?p) + length (toolsOf ?u) = 2 + 1"
    by (simp add: toolsOf_def example_tools)
  show ?thesis
    using mergeIndexedTools_unique_names [of False ?p ?u] h l by metis
qed

text \<open>
  Claim C3 as it is stated, length equal to the sum for disjoint name sets, fails without
  the second condition. With two tools of one name in the user index and no project index, the name sets of the
  two inputs are disjoint, yet the merged list has one tool, not two.
\<close>

theorem mergeIndexedTools_length_counterexample:
  "mergeIndexedTools False None
     (Some (example_index [example_tool ''a'' ''s1'', example_tool ''a'' ''s2'']))
     = Inr ([example_tool ''a'' ''s2''], []) \<and>
   toolName ` set (toolsOf None) \<inter>
     toolName ` set (toolsOf (Some (example_index [example_tool ''a'' ''s1'', example_tool ''a'' ''s2''])))
     = {} \<and>
   length [example_tool ''a'' ''s2''] \<noteq>
     length (toolsOf None) +
     length (toolsOf (Some (example_index [example_tool ''a'' ''s1'', example_tool ''a'' ''s2''])))"
  by (simp add: mergeIndexedTools_def prop_tools_def user_loop_body_def Map_values_def
      toolsOf_def example_tools Let_def)
     (simp add: example_tool_def)


subsection \<open>Two tools of one name in a single index\<close>

lemma Map_set_append_new:
  "k \<notin> fst ` set m \<Longrightarrow> Map_set m k v = m @ [(k, v)]"
  by (induction m) auto

lemma build_snoc_new:
  assumes "toolName t \<notin> toolName ` set pre"
  shows "foldl insert_tool [] (pre @ [t]) = foldl insert_tool [] pre @ [(toolName t, t)]"
proof -
  have "toolName t \<notin> fst ` set (foldl insert_tool [] pre)"
    using assms by (simp add: build_key_set)
  then show ?thesis by (simp add: insert_tool_def Map_set_append_new)
qed

lemma keyed_entry: "keyed m \<Longrightarrow> e \<in> set m \<Longrightarrow> fst e = toolName (snd e)"
  by (induction m rule: keyed.induct) auto

lemma duplicate_in_sequence:
  assumes t1: "toolName t1 = n" and t2: "toolName t2 = n"
    and pre: "n \<notin> toolName ` set pre" and post: "n \<notin> toolName ` set post"
    and first: "first = Map_values (foldl insert_tool [] (pre @ [t1]))"
    and merged: "merged = Map_values (foldl insert_tool [] (pre @ [t1] @ mid @ [t2] @ post))"
  shows "first \<noteq> [] \<and> last first = t1 \<and>
         length first \<le> length merged \<and>
         map toolName (take (length first) merged) = map toolName first \<and>
         merged ! (length first - 1) = t2 \<and>
         filter (\<lambda>x. toolName x = n) merged = [t2]"
proof -
  define B0 where "B0 = foldl insert_tool [] pre"
  define B1 where "B1 = foldl insert_tool [] (pre @ [t1])"
  define B where "B = foldl insert_tool [] (pre @ [t1] @ mid @ [t2] @ post)"
  have B1: "B1 = B0 @ [(n, t1)]"
    unfolding B1_def B0_def using build_snoc_new [of t1 pre] pre t1 by simp
  have fB: "first = map snd B1" and mB: "merged = map snd B"
    by (simp_all add: first merged B1_def B_def Map_values_def)
  have f1: "first \<noteq> []" and f2: "last first = t1" and f3: "length first = Suc (length B0)"
    unfolding fB B1 by simp_all
  have "B = foldl insert_tool B1 (mid @ [t2] @ post)"
    by (simp add: B_def B1_def)
  then obtain ys where ys: "map fst B = map fst B1 @ ys"
    using build_prefix [of B1 "mid @ [t2] @ post"] by auto
  have len: "length B = length B1 + length ys"
    using arg_cong [OF ys, of length] by simp
  then have f4: "length first \<le> length merged"
    by (simp add: fB mB)
  have kB: "length B0 < length B" using len by (simp add: B1)
  have keyedB: "keyed B" and keyedB1: "keyed B1"
    unfolding B_def B1_def by (rule build_keyed [OF keyed_Nil])+
  have names: "map toolName merged = map toolName first @ ys"
    using ys keyed_names [OF keyedB] keyed_names [OF keyedB1]
    by (simp add: fB mB Map_values_def)
  have f5: "map toolName (take (length first) merged) = map toolName first"
    using arg_cong [OF names, of "take (length first)"] by (simp add: take_map)
  have "map fst B ! length B0 = n"
    unfolding ys by (simp add: B1 nth_append)
  then have key: "fst (B ! length B0) = n" using kB by simp
  have "n \<in> toolName ` set (pre @ [t1] @ mid @ [t2] @ post)" using t2 by auto
  then have entry: "filter (\<lambda>x. toolName x = n) merged =
      [last (filter (\<lambda>x. toolName x = n) (pre @ [t1] @ mid @ [t2] @ post))]"
    unfolding merged by (rule build_entry)
  have "filter (\<lambda>x. toolName x = n) post = []"
    using post by (auto simp: filter_empty_conv)
  then have lastt: "last (filter (\<lambda>x. toolName x = n) (pre @ [t1] @ mid @ [t2] @ post)) = t2"
    using t2 by simp
  have f6: "filter (\<lambda>x. toolName x = n) merged = [t2]" using entry lastt by simp
  have mem: "B ! length B0 \<in> set B" using kB by (rule nth_mem)
  then have "toolName (snd (B ! length B0)) = n"
    using keyed_entry [OF keyedB mem] key by simp
  moreover have "snd (B ! length B0) \<in> set merged"
    using mem by (simp add: mB)
  ultimately have "snd (B ! length B0) \<in> set (filter (\<lambda>x. toolName x = n) merged)"
    by simp
  then have "snd (B ! length B0) = t2" unfolding f6 by simp
  then have f7: "merged ! (length first - 1) = t2"
    using kB by (simp add: f3 mB)
  show ?thesis using f1 f2 f4 f5 f6 f7 by blast
qed


lemma duplicate_other_without_name:
  assumes "toolName t1 = n" and "toolName t2 = n"
    and "n \<notin> toolName ` set xs" and "n \<notin> toolName ` set zs"
    and "n \<notin> toolName ` set (toolsOf other)"
  shows
    "(\<exists>first merged log1 log2.
        mergeIndexedTools DEBUG None (Some (index\<lparr>tools := xs @ [t1]\<rparr>)) = Inr (first, log1) \<and>
        mergeIndexedTools DEBUG other (Some (index\<lparr>tools := xs @ [t1] @ ys @ [t2] @ zs\<rparr>))
          = Inr (merged, log2) \<and>
        first \<noteq> [] \<and> last first = t1 \<and> length first \<le> length merged \<and>
        map toolName (take (length first) merged) = map toolName first \<and>
        merged ! (length first - 1) = t2 \<and>
        filter (\<lambda>x. toolName x = n) merged = [t2]) \<and>
     (\<exists>first merged log1 log2.
        mergeIndexedTools DEBUG (Some (index\<lparr>tools := xs @ [t1]\<rparr>)) other = Inr (first, log1) \<and>
        mergeIndexedTools DEBUG (Some (index\<lparr>tools := xs @ [t1] @ ys @ [t2] @ zs\<rparr>)) other
          = Inr (merged, log2) \<and>
        first \<noteq> [] \<and> last first = t1 \<and> length first \<le> length merged \<and>
        map toolName (take (length first) merged) = map toolName first \<and>
        merged ! (length first - 1) = t2 \<and>
        filter (\<lambda>x. toolName x = n) merged = [t2])"
proof (rule conjI)
  let ?i1 = "Some (index\<lparr>tools := xs @ [t1]\<rparr>)"
  let ?i2 = "Some (index\<lparr>tools := xs @ [t1] @ ys @ [t2] @ zs\<rparr>)"
  let ?first = "Map_values (foldl insert_tool [] (xs @ [t1]))"
  let ?merged = "Map_values (foldl insert_tool [] (xs @ [t1] @ ys @ [t2] @ (zs @ toolsOf other)))"
  obtain log1 where r1: "mergeIndexedTools DEBUG None ?i1 = Inr (?first, log1)"
    using mergeIndexedTools_returns [of DEBUG None ?i1] by (auto simp: toolsOf_def)
  obtain log2 where r2: "mergeIndexedTools DEBUG other ?i2 = Inr (?merged, log2)"
    using mergeIndexedTools_returns [of DEBUG other ?i2] by (auto simp: toolsOf_def)
  have post: "n \<notin> toolName ` set (zs @ toolsOf other)" using assms(4,5) by auto
  show "\<exists>first merged log1 log2.
        mergeIndexedTools DEBUG None ?i1 = Inr (first, log1) \<and>
        mergeIndexedTools DEBUG other ?i2 = Inr (merged, log2) \<and>
        first \<noteq> [] \<and> last first = t1 \<and> length first \<le> length merged \<and>
        map toolName (take (length first) merged) = map toolName first \<and>
        merged ! (length first - 1) = t2 \<and>
        filter (\<lambda>x. toolName x = n) merged = [t2]"
    using duplicate_in_sequence [OF assms(1,2,3) post refl refl, of ys] r1 r2 by blast
next
  let ?i1 = "Some (index\<lparr>tools := xs @ [t1]\<rparr>)"
  let ?i2 = "Some (index\<lparr>tools := xs @ [t1] @ ys @ [t2] @ zs\<rparr>)"
  let ?first = "Map_values (foldl insert_tool [] ((toolsOf other @ xs) @ [t1]))"
  let ?merged = "Map_values (foldl insert_tool [] ((toolsOf other @ xs) @ [t1] @ ys @ [t2] @ zs))"
  obtain log1 where r1: "mergeIndexedTools DEBUG ?i1 other = Inr (?first, log1)"
    using mergeIndexedTools_returns [of DEBUG ?i1 other] by (auto simp: toolsOf_def)
  obtain log2 where r2: "mergeIndexedTools DEBUG ?i2 other = Inr (?merged, log2)"
    using mergeIndexedTools_returns [of DEBUG ?i2 other] by (auto simp: toolsOf_def)
  have pre: "n \<notin> toolName ` set (toolsOf other @ xs)" using assms(3,5) by auto
  show "\<exists>first merged log1 log2.
        mergeIndexedTools DEBUG ?i1 other = Inr (first, log1) \<and>
        mergeIndexedTools DEBUG ?i2 other = Inr (merged, log2) \<and>
        first \<noteq> [] \<and> last first = t1 \<and> length first \<le> length merged \<and>
        map toolName (take (length first) merged) = map toolName first \<and>
        merged ! (length first - 1) = t2 \<and>
        filter (\<lambda>x. toolName x = n) merged = [t2]"
    using duplicate_in_sequence [OF assms(1,2) pre assms(4) refl refl, of ys] r1 r2 by blast
qed

lemma duplicate_entry:
  assumes "toolName t2 = n" and "n \<notin> toolName ` set zs"
  shows "last (filter (\<lambda>x. toolName x = n) (xs @ [t1] @ ys @ [t2] @ zs)) = t2"
proof -
  have "filter (\<lambda>x. toolName x = n) zs = []"
    using assms(2) by (auto simp: filter_empty_conv)
  then show ?thesis using assms(1) by simp
qed

text \<open>
  Claim C10, as amended. Let one index hold \<open>t1\<close> and later \<open>t2\<close> of one name \<open>n\<close>, with \<open>t1\<close> the
  first and \<open>t2\<close> the last tool of that name in it. Whatever the other index holds, the
  merged list has exactly one tool of the name \<open>n\<close>: the last tool of that name among the
  user's tools followed by the project's. So with the two tools in the project index it is
  \<open>t2\<close>, and with the two tools in the user index it is \<open>t2\<close> unless the project index has a
  tool of that name, which then is the one. When the other index has no tool of that name,
  the merge up to \<open>t1\<close> puts \<open>t1\<close> last, and the whole merge keeps the names at those
  positions and has \<open>t2\<close> where \<open>t1\<close> stood; this holds for the index in the user's place and
  in the project's.
\<close>

theorem mergeIndexedTools_duplicate_within_index:
  assumes "toolName t1 = n" and "toolName t2 = n"
    and "n \<notin> toolName ` set xs" and "n \<notin> toolName ` set zs"
  shows
    "(\<exists>merged log.
        mergeIndexedTools DEBUG other (Some (index\<lparr>tools := xs @ [t1] @ ys @ [t2] @ zs\<rparr>))
          = Inr (merged, log) \<and>
        filter (\<lambda>x. toolName x = n) merged =
          [last (filter (\<lambda>x. toolName x = n) ((xs @ [t1] @ ys @ [t2] @ zs) @ toolsOf other))] \<and>
        (n \<in> toolName ` set (toolsOf other) \<longrightarrow>
           filter (\<lambda>x. toolName x = n) merged =
             [last (filter (\<lambda>x. toolName x = n) (toolsOf other))]) \<and>
        (n \<notin> toolName ` set (toolsOf other) \<longrightarrow>
           filter (\<lambda>x. toolName x = n) merged = [t2])) \<and>
     (\<exists>merged log.
        mergeIndexedTools DEBUG (Some (index\<lparr>tools := xs @ [t1] @ ys @ [t2] @ zs\<rparr>)) other
          = Inr (merged, log) \<and>
        filter (\<lambda>x. toolName x = n) merged = [t2]) \<and>
     (n \<notin> toolName ` set (toolsOf other) \<longrightarrow>
        (\<exists>first merged log1 log2.
           mergeIndexedTools DEBUG None (Some (index\<lparr>tools := xs @ [t1]\<rparr>)) = Inr (first, log1) \<and>
           mergeIndexedTools DEBUG other (Some (index\<lparr>tools := xs @ [t1] @ ys @ [t2] @ zs\<rparr>))
             = Inr (merged, log2) \<and>
           first \<noteq> [] \<and> last first = t1 \<and> length first \<le> length merged \<and>
           map toolName (take (length first) merged) = map toolName first \<and>
           merged ! (length first - 1) = t2 \<and>
           filter (\<lambda>x. toolName x = n) merged = [t2]) \<and>
        (\<exists>first merged log1 log2.
           mergeIndexedTools DEBUG (Some (index\<lparr>tools := xs @ [t1]\<rparr>)) other = Inr (first, log1) \<and>
           mergeIndexedTools DEBUG (Some (index\<lparr>tools := xs @ [t1] @ ys @ [t2] @ zs\<rparr>)) other
             = Inr (merged, log2) \<and>
           first \<noteq> [] \<and> last first = t1 \<and> length first \<le> length merged \<and>
           map toolName (take (length first) merged) = map toolName first \<and>
           merged ! (length first - 1) = t2 \<and>
           filter (\<lambda>x. toolName x = n) merged = [t2]))"
proof (intro conjI impI)
  let ?D = "xs @ [t1] @ ys @ [t2] @ zs"
  let ?i = "Some (index\<lparr>tools := ?D\<rparr>)"
  let ?merged = "Map_values (foldl insert_tool [] (?D @ toolsOf other))"
  obtain log where ret: "mergeIndexedTools DEBUG other ?i = Inr (?merged, log)"
    using mergeIndexedTools_returns [of DEBUG other ?i] by (auto simp: toolsOf_def)
  have inD: "n \<in> toolName ` set ?D" using assms(2) by auto
  then have "n \<in> toolName ` set (?D @ toolsOf other)" by auto
  then have entry: "filter (\<lambda>x. toolName x = n) ?merged =
      [last (filter (\<lambda>x. toolName x = n) (?D @ toolsOf other))]"
    by (rule build_entry)
  have with_other: "filter (\<lambda>x. toolName x = n) ?merged =
      [last (filter (\<lambda>x. toolName x = n) (toolsOf other))]"
    if "n \<in> toolName ` set (toolsOf other)"
    using entry last_filter_append [OF that, of ?D] by simp
  have without: "filter (\<lambda>x. toolName x = n) ?merged = [t2]"
    if "n \<notin> toolName ` set (toolsOf other)"
  proof -
    have "n \<notin> toolName ` set (zs @ toolsOf other)" using that assms(4) by auto
    then have "last (filter (\<lambda>x. toolName x = n) (xs @ [t1] @ ys @ [t2] @ (zs @ toolsOf other))) = t2"
      by (rule duplicate_entry [OF assms(2)])
    then show ?thesis using entry by simp
  qed
  show "\<exists>merged log.
        mergeIndexedTools DEBUG other ?i = Inr (merged, log) \<and>
        filter (\<lambda>x. toolName x = n) merged =
          [last (filter (\<lambda>x. toolName x = n) (?D @ toolsOf other))] \<and>
        (n \<in> toolName ` set (toolsOf other) \<longrightarrow>
           filter (\<lambda>x. toolName x = n) merged =
             [last (filter (\<lambda>x. toolName x = n) (toolsOf other))]) \<and>
        (n \<notin> toolName ` set (toolsOf other) \<longrightarrow>
           filter (\<lambda>x. toolName x = n) merged = [t2])"
    using ret entry with_other without by blast
next
  let ?D = "xs @ [t1] @ ys @ [t2] @ zs"
  let ?i = "Some (index\<lparr>tools := ?D\<rparr>)"
  let ?merged = "Map_values (foldl insert_tool [] (toolsOf other @ ?D))"
  obtain log where ret: "mergeIndexedTools DEBUG ?i other = Inr (?merged, log)"
    using mergeIndexedTools_returns [of DEBUG ?i other] by (auto simp: toolsOf_def)
  have inD: "n \<in> toolName ` set ?D" using assms(2) by auto
  then have "n \<in> toolName ` set (toolsOf other @ ?D)" by auto
  then have "filter (\<lambda>x. toolName x = n) ?merged =
      [last (filter (\<lambda>x. toolName x = n) (toolsOf other @ ?D))]"
    by (rule build_entry)
  also have "last (filter (\<lambda>x. toolName x = n) (toolsOf other @ ?D)) =
      last (filter (\<lambda>x. toolName x = n) ?D)"
    by (rule last_filter_append [OF inD])
  also have "\<dots> = t2" by (rule duplicate_entry [OF assms(2,4)])
  finally show "\<exists>merged log.
        mergeIndexedTools DEBUG ?i other = Inr (merged, log) \<and>
        filter (\<lambda>x. toolName x = n) merged = [t2]"
    using ret by blast
next
  assume "n \<notin> toolName ` set (toolsOf other)"
  then show "\<exists>first merged log1 log2.
           mergeIndexedTools DEBUG None (Some (index\<lparr>tools := xs @ [t1]\<rparr>)) = Inr (first, log1) \<and>
           mergeIndexedTools DEBUG other (Some (index\<lparr>tools := xs @ [t1] @ ys @ [t2] @ zs\<rparr>))
             = Inr (merged, log2) \<and>
           first \<noteq> [] \<and> last first = t1 \<and> length first \<le> length merged \<and>
           map toolName (take (length first) merged) = map toolName first \<and>
           merged ! (length first - 1) = t2 \<and>
           filter (\<lambda>x. toolName x = n) merged = [t2]"
    using duplicate_other_without_name [OF assms, of other DEBUG index ys] by blast
next
  assume "n \<notin> toolName ` set (toolsOf other)"
  then show "\<exists>first merged log1 log2.
           mergeIndexedTools DEBUG (Some (index\<lparr>tools := xs @ [t1]\<rparr>)) other = Inr (first, log1) \<and>
           mergeIndexedTools DEBUG (Some (index\<lparr>tools := xs @ [t1] @ ys @ [t2] @ zs\<rparr>)) other
             = Inr (merged, log2) \<and>
           first \<noteq> [] \<and> last first = t1 \<and> length first \<le> length merged \<and>
           map toolName (take (length first) merged) = map toolName first \<and>
           merged ! (length first - 1) = t2 \<and>
           filter (\<lambda>x. toolName x = n) merged = [t2]"
    using duplicate_other_without_name [OF assms, of other DEBUG index ys] by blast
qed

theorem mergeIndexedTools_duplicate_within_index_witness:
  "toolName (example_tool ''a'' ''s1'') = ''a'' \<and>
   toolName (example_tool ''a'' ''s2'') = ''a'' \<and>
   ''a'' \<notin> toolName ` set [example_tool ''x'' ''s1''] \<and>
   ''a'' \<notin> toolName ` set [example_tool ''z'' ''s2''] \<and>
   ''a'' \<notin> toolName ` set (toolsOf (Some (example_index [example_tool ''o'' ''s3'']))) \<and>
   ''a'' \<in> toolName ` set (toolsOf (Some (example_index [example_tool ''a'' ''p'']))) \<and>
   mergeIndexedTools False None
     (Some (example_index [example_tool ''x'' ''s1'', example_tool ''a'' ''s1'']))
     = Inr ([example_tool ''x'' ''s1'', example_tool ''a'' ''s1''], []) \<and>
   mergeIndexedTools False (Some (example_index [example_tool ''o'' ''s3'']))
     (Some (example_index [example_tool ''x'' ''s1'', example_tool ''a'' ''s1'',
        example_tool ''y'' ''s1'', example_tool ''a'' ''s2'', example_tool ''z'' ''s2'']))
     = Inr ([example_tool ''x'' ''s1'', example_tool ''a'' ''s2'', example_tool ''y'' ''s1'',
             example_tool ''z'' ''s2'', example_tool ''o'' ''s3''], []) \<and>
   (\<exists>first merged log1 log2.
      mergeIndexedTools False None
        (Some ((example_index [])\<lparr>tools := [example_tool ''x'' ''s1''] @ [example_tool ''a'' ''s1'']\<rparr>))
        = Inr (first, log1) \<and>
      mergeIndexedTools False (Some (example_index [example_tool ''o'' ''s3'']))
        (Some ((example_index [])\<lparr>tools := [example_tool ''x'' ''s1''] @ [example_tool ''a'' ''s1''] @
           [example_tool ''y'' ''s1''] @ [example_tool ''a'' ''s2''] @ [example_tool ''z'' ''s2'']\<rparr>))
        = Inr (merged, log2) \<and>
      first \<noteq> [] \<and> last first = example_tool ''a'' ''s1'' \<and> length first \<le> length merged \<and>
      map toolName (take (length first) merged) = map toolName first \<and>
      merged ! (length first - 1) = example_tool ''a'' ''s2'' \<and>
      filter (\<lambda>x. toolName x = ''a'') merged = [example_tool ''a'' ''s2'']) \<and>
   (\<exists>merged log.
      mergeIndexedTools False (Some (example_index [example_tool ''a'' ''p'']))
        (Some ((example_index [])\<lparr>tools := [example_tool ''x'' ''s1''] @ [example_tool ''a'' ''s1''] @
           [example_tool ''y'' ''s1''] @ [example_tool ''a'' ''s2''] @ [example_tool ''z'' ''s2'']\<rparr>))
        = Inr (merged, log) \<and>
      filter (\<lambda>x. toolName x = ''a'') merged = [example_tool ''a'' ''p'']) \<and>
   (\<exists>merged log.
      mergeIndexedTools False
        (Some ((example_index [])\<lparr>tools := [example_tool ''x'' ''s1''] @ [example_tool ''a'' ''s1''] @
           [example_tool ''y'' ''s1''] @ [example_tool ''a'' ''s2''] @ [example_tool ''z'' ''s2'']\<rparr>))
        (Some (example_index [example_tool ''a'' ''p'']))
        = Inr (merged, log) \<and>
      filter (\<lambda>x. toolName x = ''a'') merged = [example_tool ''a'' ''s2''])"
proof -
  let ?o = "Some (example_index [example_tool ''o'' ''s3''])"
  let ?p = "Some (example_index [example_tool ''a'' ''p''])"
  have h1: "toolName (example_tool ''a'' ''s1'') = ''a''"
    and h2: "toolName (example_tool ''a'' ''s2'') = ''a''"
    and h3: "''a'' \<notin> toolName ` set [example_tool ''x'' ''s1'']"
    and h4: "''a'' \<notin> toolName ` set [example_tool ''z'' ''s2'']"
    and h5: "''a'' \<notin> toolName ` set (toolsOf ?o)"
    and h6: "''a'' \<in> toolName ` set (toolsOf ?p)"
    by (simp_all add: example_names example_tools toolsOf_def)
  have lastp: "last (filter (\<lambda>x. toolName x = ''a'') (toolsOf ?p)) = example_tool ''a'' ''p''"
    by (simp add: example_names example_tools toolsOf_def)
  have c1: "mergeIndexedTools False None
     (Some (example_index [example_tool ''x'' ''s1'', example_tool ''a'' ''s1'']))
     = Inr ([example_tool ''x'' ''s1'', example_tool ''a'' ''s1''], [])"
    by (simp add: mergeIndexedTools_def prop_tools_def user_loop_body_def Map_values_def
        example_tools Let_def)
       (simp add: example_tool_def)
  have c2: "mergeIndexedTools False ?o
     (Some (example_index [example_tool ''x'' ''s1'', example_tool ''a'' ''s1'',
        example_tool ''y'' ''s1'', example_tool ''a'' ''s2'', example_tool ''z'' ''s2'']))
     = Inr ([example_tool ''x'' ''s1'', example_tool ''a'' ''s2'', example_tool ''y'' ''s1'',
             example_tool ''z'' ''s2'', example_tool ''o'' ''s3''], [])"
    by (simp add: mergeIndexedTools_def prop_tools_def user_loop_body_def project_loop_body_def
        Map_values_def example_tools Let_def)
       (simp add: example_tool_def)
  have w1: "\<exists>first merged log1 log2.
      mergeIndexedTools False None
        (Some ((example_index [])\<lparr>tools := [example_tool ''x'' ''s1''] @ [example_tool ''a'' ''s1'']\<rparr>))
        = Inr (first, log1) \<and>
      mergeIndexedTools False ?o
        (Some ((example_index [])\<lparr>tools := [example_tool ''x'' ''s1''] @ [example_tool ''a'' ''s1''] @
           [example_tool ''y'' ''s1''] @ [example_tool ''a'' ''s2''] @ [example_tool ''z'' ''s2'']\<rparr>))
        = Inr (merged, log2) \<and>
      first \<noteq> [] \<and> last first = example_tool ''a'' ''s1'' \<and> length first \<le> length merged \<and>
      map toolName (take (length first) merged) = map toolName first \<and>
      merged ! (length first - 1) = example_tool ''a'' ''s2'' \<and>
      filter (\<lambda>x. toolName x = ''a'') merged = [example_tool ''a'' ''s2'']"
    using mergeIndexedTools_duplicate_within_index [OF h1 h2 h3 h4,
        where DEBUG = False and other = ?o and index = "example_index []"
          and ys = "[example_tool ''y'' ''s1'']",
        THEN conjunct2, THEN conjunct2, THEN mp, OF h5, THEN conjunct1] .
  have w2: "\<exists>merged log.
      mergeIndexedTools False ?p
        (Some ((example_index [])\<lparr>tools := [example_tool ''x'' ''s1''] @ [example_tool ''a'' ''s1''] @
           [example_tool ''y'' ''s1''] @ [example_tool ''a'' ''s2''] @ [example_tool ''z'' ''s2'']\<rparr>))
        = Inr (merged, log) \<and>
      filter (\<lambda>x. toolName x = ''a'') merged = [example_tool ''a'' ''p'']"
    using mergeIndexedTools_duplicate_within_index [OF h1 h2 h3 h4,
        where DEBUG = False and other = ?p and index = "example_index []"
          and ys = "[example_tool ''y'' ''s1'']", THEN conjunct1] h6 lastp
    by auto
  have w3: "\<exists>merged log.
      mergeIndexedTools False
        (Some ((example_index [])\<lparr>tools := [example_tool ''x'' ''s1''] @ [example_tool ''a'' ''s1''] @
           [example_tool ''y'' ''s1''] @ [example_tool ''a'' ''s2''] @ [example_tool ''z'' ''s2'']\<rparr>))
        ?p = Inr (merged, log) \<and>
      filter (\<lambda>x. toolName x = ''a'') merged = [example_tool ''a'' ''s2'']"
    using mergeIndexedTools_duplicate_within_index [OF h1 h2 h3 h4,
        where DEBUG = False and other = ?p and index = "example_index []"
          and ys = "[example_tool ''y'' ''s1'']", THEN conjunct2, THEN conjunct1] .
  show ?thesis
    by (intro conjI) (rule h1 h2 h3 h4 h5 h6 c1 c2 w1 w2 w3)+
qed

text \<open>
  Claim C10 as it is stated fails when the other index has a tool of the name: with the
  project \<open>[a/p]\<close> and the user \<open>[a/s1, a/s2]\<close> the merged list is \<open>[a/p]\<close>, not the later
  occurrence \<open>a/s2\<close> of the user index.
\<close>

theorem mergeIndexedTools_duplicate_counterexample:
  "mergeIndexedTools False (Some (example_index [example_tool ''a'' ''p'']))
     (Some (example_index [example_tool ''a'' ''s1'', example_tool ''a'' ''s2'']))
     = Inr ([example_tool ''a'' ''p''], []) \<and>
   example_tool ''a'' ''p'' \<noteq> example_tool ''a'' ''s2''"
  by (simp add: mergeIndexedTools_def prop_tools_def user_loop_body_def project_loop_body_def
      Map_values_def example_tools Let_def)
     (simp add: example_tool_def)

section \<open>Properties of the statistics selection and of the embeddings test\<close>

text \<open>
  Claim C4. The statistics returned are the project index's when it has them, otherwise the
  user index's when it has them, otherwise the default, whose three fields are zero and
  empty; in every case the result is the statistics of one input as they stand, or the
  default.
\<close>

theorem selectBM25Stats_selects:
  "(opt_bm25Stats p = Some s \<longrightarrow> selectBM25Stats p u = s) \<and>
   (opt_bm25Stats p = None \<and> opt_bm25Stats u = Some s \<longrightarrow> selectBM25Stats p u = s) \<and>
   (opt_bm25Stats p = None \<and> opt_bm25Stats u = None \<longrightarrow> selectBM25Stats p u = default_stats) \<and>
   default_stats = \<lparr>avgDocLength = 0, documentFrequencies = [], totalDocuments = 0\<rparr> \<and>
   (Some (selectBM25Stats p u) = opt_bm25Stats p \<or>
    Some (selectBM25Stats p u) = opt_bm25Stats u \<or>
    selectBM25Stats p u = default_stats)"
  by (cases "opt_bm25Stats p"; cases "opt_bm25Stats u")
     (simp_all add: selectBM25Stats_def nullish_def default_stats_def)

theorem selectBM25Stats_selects_witness:
  "opt_bm25Stats (Some ((example_index [])\<lparr>bm25Stats := Some (example_stats 2)\<rparr>))
     = Some (example_stats 2) \<and>
   selectBM25Stats (Some ((example_index [])\<lparr>bm25Stats := Some (example_stats 2)\<rparr>))
     (Some ((example_index [])\<lparr>bm25Stats := Some (example_stats 5)\<rparr>)) = example_stats 2 \<and>
   opt_bm25Stats None = None \<and>
   opt_bm25Stats (Some ((example_index [])\<lparr>bm25Stats := Some (example_stats 5)\<rparr>))
     = Some (example_stats 5) \<and>
   selectBM25Stats None (Some ((example_index [])\<lparr>bm25Stats := Some (example_stats 5)\<rparr>))
     = example_stats 5 \<and>
   opt_bm25Stats (Some (example_index [])) = None \<and>
   selectBM25Stats None (Some (example_index [])) = default_stats"
proof -
  let ?p = "Some ((example_index [])\<lparr>bm25Stats := Some (example_stats 2)\<rparr>)"
  let ?u = "Some ((example_index [])\<lparr>bm25Stats := Some (example_stats 5)\<rparr>)"
  have h1: "opt_bm25Stats ?p = Some (example_stats 2)"
    and h2: "opt_bm25Stats None = None"
    and h3: "opt_bm25Stats ?u = Some (example_stats 5)"
    and h4: "opt_bm25Stats (Some (example_index [])) = None"
    by (simp_all add: opt_bm25Stats_def example_index_def)
  show ?thesis
    using selectBM25Stats_selects [of ?p "example_stats 2" ?u]
      selectBM25Stats_selects [of None "example_stats 5" ?u]
      selectBM25Stats_selects [of None "example_stats 5" "Some (example_index [])"]
      h1 h2 h3 h4
    by simp
qed

text \<open>
  Claim C5. \<open>hasAnyEmbeddings\<close> is true exactly when one of the two indexes is there and
  reports embeddings; for two absent indexes it is false.
\<close>

theorem hasAnyEmbeddings_iff:
  "(hasAnyEmbeddings p u \<longleftrightarrow>
      (\<exists>i. p = Some i \<and> hasEmbeddings i = Some True) \<or>
      (\<exists>i. u = Some i \<and> hasEmbeddings i = Some True)) \<and>
   \<not> hasAnyEmbeddings None None"
proof -
  have one: "nullish_or (opt_hasEmbeddings x) False \<longleftrightarrow> (\<exists>i. x = Some i \<and> hasEmbeddings i = Some True)"
    for x
    by (cases x) (auto simp: nullish_or_def opt_hasEmbeddings_def split: option.splits)
  show ?thesis
    unfolding hasAnyEmbeddings_def one by simp
qed

text \<open>
  Claim C6, as amended. The three functions return on every input: the merge never yields
  the \<open>TypeError\<close> of a property read on \<open>null\<close>, and the other two read through \<open>?.\<close> only.
  An absent index is no error. To the merge and to the embeddings test it is what an empty
  index is: the results are those for an index without tools and without embeddings, and
  the merge of two absent indexes is the empty list. The selection of statistics skips an
  absent index: it returns the statistics of the other index, or the default when that has
  none or is absent too. An index that is there with statistics, the empty index among
  them, is not skipped: as the project index its statistics are the result.
\<close>

theorem scope_functions_total:
  "(\<exists>merged log. mergeIndexedTools DEBUG p u = Inr (merged, log)) \<and>
   mergeIndexedTools DEBUG None None = Inr ([], []) \<and>
   (tools e = [] \<longrightarrow>
      mergeIndexedTools DEBUG None u = mergeIndexedTools DEBUG (Some e) u \<and>
      mergeIndexedTools DEBUG p None = mergeIndexedTools DEBUG p (Some e)) \<and>
   selectBM25Stats None None = default_stats \<and>
   selectBM25Stats None u = nullish_or (opt_bm25Stats u) default_stats \<and>
   selectBM25Stats p None = nullish_or (opt_bm25Stats p) default_stats \<and>
   (bm25Stats e = Some s \<longrightarrow>
      selectBM25Stats (Some e) u = s \<and> selectBM25Stats None (Some e) = s) \<and>
   hasAnyEmbeddings None None = False \<and>
   (hasEmbeddings e \<noteq> Some True \<longrightarrow>
      hasAnyEmbeddings None u = hasAnyEmbeddings (Some e) u \<and>
      hasAnyEmbeddings p None = hasAnyEmbeddings p (Some e))"
proof (intro conjI impI)
  show "\<exists>merged log. mergeIndexedTools DEBUG p u = Inr (merged, log)"
    using mergeIndexedTools_returns [of DEBUG p u] by blast
  show "mergeIndexedTools DEBUG None None = Inr ([], [])"
    by (simp add: mergeIndexedTools_def Map_values_def)
  show "selectBM25Stats None None = default_stats"
    by (simp add: selectBM25Stats_def nullish_def opt_bm25Stats_def)
  show "selectBM25Stats None u = nullish_or (opt_bm25Stats u) default_stats"
    by (simp add: selectBM25Stats_def nullish_def nullish_or_def opt_bm25Stats_def
        split: option.splits)
  show "selectBM25Stats p None = nullish_or (opt_bm25Stats p) default_stats"
    by (simp add: selectBM25Stats_def nullish_def nullish_or_def opt_bm25Stats_def
        split: option.splits)
  show "hasAnyEmbeddings None None = False"
    by (simp add: hasAnyEmbeddings_def nullish_or_def opt_hasEmbeddings_def)
next
  assume "tools e = []"
  then show "mergeIndexedTools DEBUG None u = mergeIndexedTools DEBUG (Some e) u"
    by (cases u) (simp_all add: mergeIndexedTools_def prop_tools_def Let_def)
next
  assume "tools e = []"
  then show "mergeIndexedTools DEBUG p None = mergeIndexedTools DEBUG p (Some e)"
    by (cases p) (simp_all add: mergeIndexedTools_def prop_tools_def Let_def)
next
  assume "bm25Stats e = Some s"
  then show "selectBM25Stats (Some e) u = s"
    by (simp add: selectBM25Stats_def nullish_def opt_bm25Stats_def)
next
  assume "bm25Stats e = Some s"
  then show "selectBM25Stats None (Some e) = s"
    by (simp add: selectBM25Stats_def nullish_def opt_bm25Stats_def)
next
  assume "hasEmbeddings e \<noteq> Some True"
  then show "hasAnyEmbeddings None u = hasAnyEmbeddings (Some e) u"
    by (cases "hasEmbeddings e")
       (auto simp: hasAnyEmbeddings_def nullish_or_def opt_hasEmbeddings_def)
next
  assume "hasEmbeddings e \<noteq> Some True"
  then show "hasAnyEmbeddings p None = hasAnyEmbeddings p (Some e)"
    by (cases "hasEmbeddings e")
       (auto simp: hasAnyEmbeddings_def nullish_or_def opt_hasEmbeddings_def)
qed

lemma empty_index_fields:
  "tools empty_index = []" "bm25Stats empty_index = Some default_stats"
  "hasEmbeddings empty_index \<noteq> Some True"
  by (simp_all add: empty_index_def example_index_def)

theorem scope_functions_total_witness:
  "tools empty_index = [] \<and>
   bm25Stats empty_index = Some default_stats \<and>
   hasEmbeddings empty_index \<noteq> Some True \<and>
   (\<exists>merged log.
      mergeIndexedTools True None
        (Some ((example_index [example_tool ''a'' ''s''])\<lparr>bm25Stats := Some (example_stats 5)\<rparr>))
      = Inr (merged, log)) \<and>
   mergeIndexedTools True None
       (Some ((example_index [example_tool ''a'' ''s''])\<lparr>bm25Stats := Some (example_stats 5)\<rparr>))
     = mergeIndexedTools True (Some empty_index)
         (Some ((example_index [example_tool ''a'' ''s''])\<lparr>bm25Stats := Some (example_stats 5)\<rparr>)) \<and>
   selectBM25Stats None
       (Some ((example_index [example_tool ''a'' ''s''])\<lparr>bm25Stats := Some (example_stats 5)\<rparr>))
     = example_stats 5 \<and>
   selectBM25Stats (Some empty_index)
       (Some ((example_index [example_tool ''a'' ''s''])\<lparr>bm25Stats := Some (example_stats 5)\<rparr>))
     = default_stats \<and>
   selectBM25Stats None (Some empty_index) = default_stats \<and>
   hasAnyEmbeddings None
       (Some ((example_index [example_tool ''a'' ''s''])\<lparr>bm25Stats := Some (example_stats 5)\<rparr>))
     = hasAnyEmbeddings (Some empty_index)
         (Some ((example_index [example_tool ''a'' ''s''])\<lparr>bm25Stats := Some (example_stats 5)\<rparr>))"
proof -
  let ?u = "Some ((example_index [example_tool ''a'' ''s''])\<lparr>bm25Stats := Some (example_stats 5)\<rparr>)"
  have u: "nullish_or (opt_bm25Stats ?u) default_stats = example_stats 5"
    by (simp add: nullish_or_def opt_bm25Stats_def)
  have sel: "selectBM25Stats None ?u = example_stats 5"
    using scope_functions_total [of True None ?u empty_index default_stats] u by simp
  show ?thesis
    using scope_functions_total [of True None ?u empty_index default_stats] empty_index_fields sel
    by blast
qed

text \<open>
  Claim C6 as it is stated, an absent index treated as an empty index by all three
  functions, fails for the selection of statistics: with a user index that has statistics,
  an absent project index gives the user's statistics, the empty project index gives its
  own, the statistics of no documents.
\<close>

theorem selectBM25Stats_null_counterexample:
  "tools empty_index = [] \<and>
   bm25Stats empty_index = Some default_stats \<and>
   hasEmbeddings empty_index = Some False \<and>
   selectBM25Stats None
       (Some ((example_index [example_tool ''a'' ''s''])\<lparr>bm25Stats := Some (example_stats 5)\<rparr>))
     = example_stats 5 \<and>
   selectBM25Stats (Some empty_index)
       (Some ((example_index [example_tool ''a'' ''s''])\<lparr>bm25Stats := Some (example_stats 5)\<rparr>))
     = default_stats \<and>
   example_stats 5 \<noteq> default_stats"
  by (simp add: selectBM25Stats_def nullish_def opt_bm25Stats_def empty_index_def
      example_index_def example_stats_def default_stats_def)

section \<open>Properties of tool execution\<close>















section \<open>Properties of the inverse document frequency\<close>

lemma IDF_unseen: "0 \<le> N \<Longrightarrow> IDF N 0 = Finite (ln (2 * N + 2))"
  by (simp add: IDF_def js_divide_def)

text \<open>
  Claim C8. For a document frequency of zero and a number of documents \<open>N \<ge> 0\<close> the inverse
  document frequency is a finite number, none of \<open>NaN\<close>, \<open>Infinity\<close> and \<open>-Infinity\<close>, and it is
  strictly positive: it is \<open>ln (2 N + 2)\<close>, at least \<open>ln 2\<close>. So it is for every term that is
  absent from the document frequencies of a corpus.
\<close>

theorem idf_unseen_finite_positive:
  "(0 \<le> N \<longrightarrow> (\<exists>v. IDF N 0 = Finite v \<and> 0 < v \<and> ln 2 \<le> v)) \<and>
   (map_of (documentFrequencies stats) q = None \<longrightarrow>
      (\<exists>v. idf stats q = Finite v \<and> 0 < v))"
proof (intro conjI impI)
  assume N: "0 \<le> N"
  have "ln 2 \<le> ln (2 * N + 2)" using N by simp
  moreover have "0 < ln (2 * N + 2)" using N by (simp add: ln_gt_zero)
  ultimately show "\<exists>v. IDF N 0 = Finite v \<and> 0 < v \<and> ln 2 \<le> v"
    using IDF_unseen [OF N] by blast
next
  assume "map_of (documentFrequencies stats) q = None"
  then have "idf stats q = Finite (ln (2 * real (totalDocuments stats) + 2))"
    by (simp add: idf_def document_frequency_def IDF_unseen)
  moreover have "0 < ln (2 * real (totalDocuments stats) + 2)"
    by (simp add: ln_gt_zero)
  ultimately show "\<exists>v. idf stats q = Finite v \<and> 0 < v" by blast
qed

theorem idf_unseen_finite_positive_witness:
  "(0::real) \<le> 2 \<and> (\<exists>v. IDF 2 0 = Finite v \<and> 0 < v \<and> ln 2 \<le> v) \<and>
   map_of (documentFrequencies (example_stats 2)) ''write'' = None \<and>
   (\<exists>v. idf (example_stats 2) ''write'' = Finite v \<and> 0 < v)"
proof -
  have h: "map_of (documentFrequencies (example_stats 2)) ''write'' = None"
    by (simp add: example_stats_def)
  show ?thesis
    using idf_unseen_finite_positive [of 2 "example_stats 2" "''write''"] h by simp
qed

section \<open>Properties of the functions on a store\<close>

lemma deref_append: "deref h r = Some obj \<Longrightarrow> deref (h @ xs) r = Some obj"
  by (auto simp: deref_def nth_append split: if_splits)

lemma tool_at_append: "tool_at h r = Some t \<Longrightarrow> tool_at (h @ xs) r = Some t"
  by (auto simp: tool_at_def deref_append split: option.splits heap_object.splits)

lemma array_at_append: "array_at h r = Some rs \<Longrightarrow> array_at (h @ xs) r = Some rs"
  by (auto simp: array_at_def deref_append split: option.splits heap_object.splits)

lemma index_tools_append: "index_tools h i = Some rs \<Longrightarrow> index_tools (h @ xs) i = Some rs"
  by (auto simp: index_tools_def deref_append array_at_append
      split: option.splits heap_object.splits)

lemma map_at_last: "map_at (h @ [Map_object es]) (length h) = Some es"
  by (simp add: map_at_def deref_def)

lemma heap_Map_set_last:
  "heap_Map_set (h @ [Map_object es]) (length h) k v = Some (h @ [Map_object (Map_set es k v)])"
  by (simp add: heap_Map_set_def map_at_last)

lemma user_loop_store:
  "list_all (\<lambda>r. tool_at h r \<noteq> None) rs \<Longrightarrow>
     for_of (heap_user_loop_body (length h)) \<lparr>store = h @ [Map_object es], heap_overrideCount = c, heap_stderr = l\<rparr> rs
       = Some \<lparr>store = h @ [Map_object (foldl (ref_insert h) es rs)], heap_overrideCount = c, heap_stderr = l\<rparr>"
proof (induction rs arbitrary: es)
  case Nil
  show ?case by simp
next
  case (Cons r rs)
  obtain t where t: "tool_at h r = Some t" using Cons.prems by auto
  have step: "heap_user_loop_body (length h) \<lparr>store = h @ [Map_object es], heap_overrideCount = c, heap_stderr = l\<rparr> r
      = Some \<lparr>store = h @ [Map_object (ref_insert h es r)], heap_overrideCount = c, heap_stderr = l\<rparr>"
    by (simp add: heap_user_loop_body_def tool_at_append [OF t] heap_Map_set_last
        ref_insert_def name_at_def t toolName_def)
  show ?case using Cons.IH [of "ref_insert h es r"] Cons.prems by (simp add: step)
qed

lemma project_loop_store:
  "list_all (\<lambda>r. tool_at h r \<noteq> None) rs \<Longrightarrow>
     \<exists>c' l'. for_of (heap_project_loop_body DEBUG (length h))
               \<lparr>store = h @ [Map_object es], heap_overrideCount = c, heap_stderr = l\<rparr> rs
       = Some \<lparr>store = h @ [Map_object (foldl (ref_insert h) es rs)], heap_overrideCount = c', heap_stderr = l'\<rparr>"
proof (induction rs arbitrary: es c l)
  case Nil
  show ?case by simp
next
  case (Cons r rs)
  obtain t where t: "tool_at h r = Some t" using Cons.prems by auto
  have "\<exists>c1 l1. heap_project_loop_body DEBUG (length h)
         \<lparr>store = h @ [Map_object es], heap_overrideCount = c, heap_stderr = l\<rparr> r
      = Some \<lparr>store = h @ [Map_object (ref_insert h es r)], heap_overrideCount = c1, heap_stderr = l1\<rparr>"
    by (simp add: heap_project_loop_body_def tool_at_append [OF t] heap_Map_set_last map_at_last
        ref_insert_def name_at_def t toolName_def Let_def)
  then obtain c1 l1 where step: "heap_project_loop_body DEBUG (length h)
         \<lparr>store = h @ [Map_object es], heap_overrideCount = c, heap_stderr = l\<rparr> r
      = Some \<lparr>store = h @ [Map_object (ref_insert h es r)], heap_overrideCount = c1, heap_stderr = l1\<rparr>"
    by blast
  show ?case using Cons.IH [of "ref_insert h es r" c1 l1] Cons.prems by (simp add: step)
qed


lemma wf_input_tools:
  assumes "wf_input h x"
  shows "list_all (\<lambda>r. tool_at h r \<noteq> None) (input_tools h x)"
    and "x = Some i \<Longrightarrow> index_tools h i = Some (input_tools h x)"
  using assms
  by (auto simp: wf_input_def wf_index_def input_tools_def index_tools_def
      split: option.splits heap_object.splits)

lemma mergeIndexedTools_heap_returns:
  assumes "wf_input h p" and "wf_input h u"
  shows "\<exists>log. mergeIndexedTools_heap DEBUG h p u =
           Some (h @ [Map_object (foldl (ref_insert h) [] (input_tools h u @ input_tools h p)),
                      Array_object (Map_values
                        (foldl (ref_insert h) [] (input_tools h u @ input_tools h p)))],
                 Suc (length h), log)"
proof -
  let ?E1 = "foldl (ref_insert h) [] (input_tools h u)"
  let ?E2 = "foldl (ref_insert h) ?E1 (input_tools h p)"
  have U: "for_of (heap_user_loop_body (length h))
             \<lparr>store = h @ [Map_object []], heap_overrideCount = 0, heap_stderr = []\<rparr> (input_tools h u)
           = Some \<lparr>store = h @ [Map_object ?E1], heap_overrideCount = 0, heap_stderr = []\<rparr>"
    by (rule user_loop_store [OF wf_input_tools(1) [OF assms(2)]])
  obtain c' l' where P:
    "for_of (heap_project_loop_body DEBUG (length h))
       \<lparr>store = h @ [Map_object ?E1], heap_overrideCount = 0, heap_stderr = []\<rparr> (input_tools h p)
     = Some \<lparr>store = h @ [Map_object ?E2], heap_overrideCount = c', heap_stderr = l'\<rparr>"
    using project_loop_store [OF wf_input_tools(1) [OF assms(1)], of DEBUG ?E1 0 "[]"] by blast
  have Ui: "index_tools (h @ xs) i = Some (input_tools h u)" if "u = Some i" for i xs
    by (rule index_tools_append [OF wf_input_tools(2) [OF assms(2) that]])
  have Pi: "index_tools (h @ xs) i = Some (input_tools h p)" if "p = Some i" for i xs
    by (rule index_tools_append [OF wf_input_tools(2) [OF assms(1) that]])
  have Un: "input_tools h u = []" if "u = None" using that by (simp add: input_tools_def)
  have Pn: "input_tools h p = []" if "p = None" using that by (simp add: input_tools_def)
  show ?thesis
  proof (cases u; cases p)
    assume "u = None" "p = None"
    then show ?thesis
      using U P Un Pn
      by (simp add: mergeIndexedTools_heap_def alloc_def Let_def map_at_last)
  next
    fix j assume "u = None" "p = Some j"
    then show ?thesis
      using U P Un Pi [of j]
      by (simp add: mergeIndexedTools_heap_def alloc_def Let_def map_at_last)
  next
    fix i assume "u = Some i" "p = None"
    then show ?thesis
      using U P Ui [of i] Pn
      by (simp add: mergeIndexedTools_heap_def alloc_def Let_def map_at_last)
  next
    fix i j assume "u = Some i" "p = Some j"
    then show ?thesis
      using U P Ui [of i] Pi [of j]
      by (simp add: mergeIndexedTools_heap_def alloc_def Let_def map_at_last)
  qed
qed


lemma Map_set_values_subset:
  "set (Map_values (Map_set es k v)) \<subseteq> insert v (set (Map_values es))"
proof (induction es)
  case Nil
  show ?case by (simp add: Map_values_def)
next
  case (Cons e es)
  obtain a b where e: "e = (a, b)" by (cases e)
  show ?case
  proof (cases "a = k")
    case True
    then show ?thesis by (auto simp: e Map_values_def)
  next
    case False
    have "set (Map_values ((a, b) # Map_set es k v)) = insert b (set (Map_values (Map_set es k v)))"
      by (simp add: Map_values_def)
    also have "\<dots> \<subseteq> insert b (insert v (set (Map_values es)))"
      using Cons.IH by blast
    also have "\<dots> = insert v (set (Map_values ((a, b) # es)))"
      by (auto simp: Map_values_def)
    finally show ?thesis using False by (simp add: e)
  qed
qed

lemma ref_insert_values:
  "set (Map_values (foldl (ref_insert h) es rs)) \<subseteq> set (Map_values es) \<union> set rs"
proof (induction rs arbitrary: es)
  case Nil
  show ?case by simp
next
  case (Cons r rs)
  have "set (Map_values (ref_insert h es r)) \<subseteq> insert r (set (Map_values es))"
    unfolding ref_insert_def by (rule Map_set_values_subset)
  then show ?case using Cons.IH [of "ref_insert h es r"]
    by (simp only: foldl_Cons list.set) blast
qed

lemma Map_set_map_values:
  "map (\<lambda>(k, r). (k, g r)) (Map_set es k v) = Map_set (map (\<lambda>(k, r). (k, g r)) es) k (g v)"
  by (induction es) auto

lemma ref_insert_refines:
  assumes "list_all (\<lambda>r. tool_at h r \<noteq> None) rs"
  shows "map (\<lambda>(k, r). (k, the (tool_at h r))) (foldl (ref_insert h) es rs) =
         foldl insert_tool (map (\<lambda>(k, r). (k, the (tool_at h r))) es)
           (map (\<lambda>r. the (tool_at h r)) rs)"
  using assms
proof (induction rs arbitrary: es)
  case Nil
  show ?case by simp
next
  case (Cons r rs)
  obtain t where t: "tool_at h r = Some t" using Cons.prems by auto
  have "map (\<lambda>(k, r). (k, the (tool_at h r))) (ref_insert h es r) =
        insert_tool (map (\<lambda>(k, r). (k, the (tool_at h r))) es) (the (tool_at h r))"
    by (simp add: ref_insert_def insert_tool_def name_at_def t Map_set_map_values)
  then show ?case using Cons.IH [of "ref_insert h es r"] Cons.prems by simp
qed

lemma tool_values_map:
  "list_all (\<lambda>r. tool_at h r \<noteq> None) rs \<Longrightarrow> tool_values h rs = map (\<lambda>r. the (tool_at h r)) rs"
  by (induction rs) (auto simp: tool_values_def List.map_filter_simps)

lemma tool_values_append_heap:
  "list_all (\<lambda>r. tool_at h r \<noteq> None) rs \<Longrightarrow> tool_values (h @ xs) rs = tool_values h rs"
  by (induction rs) (auto simp: tool_values_def List.map_filter_simps tool_at_append)

lemma merged_refs_refine:
  assumes "list_all (\<lambda>r. tool_at h r \<noteq> None) rs"
  shows "tool_values (h @ xs) (Map_values (foldl (ref_insert h) [] rs)) =
         Map_values (foldl insert_tool [] (tool_values h rs))"
proof -
  let ?E = "foldl (ref_insert h) [] rs"
  have sub: "set (Map_values ?E) \<subseteq> set rs"
    using ref_insert_values [of h "[]" rs] by (simp add: Map_values_def)
  then have all: "list_all (\<lambda>r. tool_at h r \<noteq> None) (Map_values ?E)"
    using assms by (auto simp: list_all_iff)
  have "tool_values (h @ xs) (Map_values ?E) = map (\<lambda>r. the (tool_at h r)) (Map_values ?E)"
    using tool_values_append_heap [OF all] tool_values_map [OF all] by simp
  also have "\<dots> = Map_values (map (\<lambda>(k, r). (k, the (tool_at h r))) ?E)"
    by (simp add: Map_values_def case_prod_unfold comp_def)
  also have "\<dots> = Map_values (foldl insert_tool [] (map (\<lambda>r. the (tool_at h r)) rs))"
    using ref_insert_refines [OF assms, of "[]"] by simp
  also have "\<dots> = Map_values (foldl insert_tool [] (tool_values h rs))"
    by (simp add: tool_values_map [OF assms])
  finally show ?thesis .
qed


lemma wf_input_stats:
  "wf_input h x \<Longrightarrow> index_bm25Stats h x = Some (input_stats h x)"
  by (auto simp: wf_input_def wf_index_def index_bm25Stats_def input_stats_def
      split: option.splits heap_object.splits)

lemma wf_input_hasEmbeddings:
  "wf_input h x \<Longrightarrow> \<exists>e. index_hasEmbeddings h x = Some e"
  by (auto simp: wf_input_def wf_index_def index_hasEmbeddings_def
      split: option.splits heap_object.splits)

lemma selectBM25Stats_heap_returns:
  assumes "wf_input h p" and "wf_input h u"
  shows "selectBM25Stats_heap h p u =
           (case nullish (input_stats h p) (input_stats h u) of
              None \<Rightarrow> Some (h @ [Stats_object default_stats], length h)
            | Some r \<Rightarrow> Some (h, r))"
  by (simp add: selectBM25Stats_heap_def wf_input_stats [OF assms(1)] wf_input_stats [OF assms(2)]
      alloc_def split: option.splits)

text \<open>
  Claim C7, as amended. None of the three functions changes an object that was in the store
  before the call. \<open>mergeIndexedTools\<close> returns a new array; its elements are tool objects of
  the two inputs themselves, and read as values they are the list of the first model.
  \<open>selectBM25Stats\<close> returns the statistics object of the project index itself when it has
  one, else that of the user index itself, and a new object holding the default only when
  neither has one. \<open>hasAnyEmbeddings\<close> returns a boolean and no object.
\<close>

theorem scope_functions_frame:
  assumes "wf_input h projectIndex" and "wf_input h userIndex"
  shows
    "(\<exists>h' r log rs.
        mergeIndexedTools_heap DEBUG h projectIndex userIndex = Some (h', r, log) \<and>
        take (length h) h' = h \<and>
        length h \<le> r \<and> deref h' r = Some (Array_object rs) \<and>
        set rs \<subseteq> set (input_tools h userIndex) \<union> set (input_tools h projectIndex) \<and>
        (\<forall>pv uv.
           toolsOf pv = tool_values h (input_tools h projectIndex) \<and>
           toolsOf uv = tool_values h (input_tools h userIndex) \<longrightarrow>
             (\<exists>log'. mergeIndexedTools DEBUG pv uv = Inr (tool_values h' rs, log')))) \<and>
     (\<exists>h' r.
        selectBM25Stats_heap h projectIndex userIndex = Some (h', r) \<and>
        take (length h) h' = h \<and>
        (\<forall>s. input_stats h projectIndex = Some s \<longrightarrow> r = s \<and> h' = h) \<and>
        (\<forall>s. input_stats h projectIndex = None \<and> input_stats h userIndex = Some s \<longrightarrow>
             r = s \<and> h' = h) \<and>
        (input_stats h projectIndex = None \<and> input_stats h userIndex = None \<longrightarrow>
           r = length h \<and> h' = h @ [Stats_object default_stats])) \<and>
     (\<exists>b. hasAnyEmbeddings_heap h projectIndex userIndex = Some b)"
proof (intro conjI)
  let ?refs = "input_tools h userIndex @ input_tools h projectIndex"
  let ?E = "foldl (ref_insert h) [] ?refs"
  let ?h' = "h @ [Map_object ?E, Array_object (Map_values ?E)]"
  obtain log where ret:
    "mergeIndexedTools_heap DEBUG h projectIndex userIndex = Some (?h', Suc (length h), log)"
    using mergeIndexedTools_heap_returns [OF assms] by blast
  have all: "list_all (\<lambda>r. tool_at h r \<noteq> None) ?refs"
    using wf_input_tools(1) [OF assms(1)] wf_input_tools(1) [OF assms(2)] by simp
  have frame: "take (length h) ?h' = h" by simp
  have arr: "deref ?h' (Suc (length h)) = Some (Array_object (Map_values ?E))"
    by (simp add: deref_def nth_append)
  have sub: "set (Map_values ?E) \<subseteq> set (input_tools h userIndex) \<union> set (input_tools h projectIndex)"
    using ref_insert_values [of h "[]" ?refs] by (simp add: Map_values_def)
  have vals: "tool_values ?h' (Map_values ?E) = Map_values (foldl insert_tool [] (tool_values h ?refs))"
    by (rule merged_refs_refine [OF all])
  have split: "tool_values h ?refs =
      tool_values h (input_tools h userIndex) @ tool_values h (input_tools h projectIndex)"
    by (simp add: tool_values_def List.map_filter_def)
  have ref: "\<exists>log'. mergeIndexedTools DEBUG pv uv = Inr (tool_values ?h' (Map_values ?E), log')"
    if "toolsOf pv = tool_values h (input_tools h projectIndex) \<and>
        toolsOf uv = tool_values h (input_tools h userIndex)" for pv uv
    using mergeIndexedTools_returns [of DEBUG pv uv] that unfolding vals split by simp
  show "\<exists>h' r log rs.
        mergeIndexedTools_heap DEBUG h projectIndex userIndex = Some (h', r, log) \<and>
        take (length h) h' = h \<and>
        length h \<le> r \<and> deref h' r = Some (Array_object rs) \<and>
        set rs \<subseteq> set (input_tools h userIndex) \<union> set (input_tools h projectIndex) \<and>
        (\<forall>pv uv.
           toolsOf pv = tool_values h (input_tools h projectIndex) \<and>
           toolsOf uv = tool_values h (input_tools h userIndex) \<longrightarrow>
             (\<exists>log'. mergeIndexedTools DEBUG pv uv = Inr (tool_values h' rs, log')))"
  proof (rule exI [of _ ?h'], rule exI [of _ "Suc (length h)"], rule exI [of _ log],
      rule exI [of _ "Map_values ?E"], intro conjI allI impI)
    show "mergeIndexedTools_heap DEBUG h projectIndex userIndex = Some (?h', Suc (length h), log)"
      by (rule ret)
    show "take (length h) ?h' = h" by (rule frame)
    show "length h \<le> Suc (length h)" by simp
    show "deref ?h' (Suc (length h)) = Some (Array_object (Map_values ?E))" by (rule arr)
    show "set (Map_values ?E) \<subseteq> set (input_tools h userIndex) \<union> set (input_tools h projectIndex)"
      by (rule sub)
    fix pv uv
    assume "toolsOf pv = tool_values h (input_tools h projectIndex) \<and>
        toolsOf uv = tool_values h (input_tools h userIndex)"
    then show "\<exists>log'. mergeIndexedTools DEBUG pv uv = Inr (tool_values ?h' (Map_values ?E), log')"
      by (rule ref)
  qed
next
  show "\<exists>h' r.
        selectBM25Stats_heap h projectIndex userIndex = Some (h', r) \<and>
        take (length h) h' = h \<and>
        (\<forall>s. input_stats h projectIndex = Some s \<longrightarrow> r = s \<and> h' = h) \<and>
        (\<forall>s. input_stats h projectIndex = None \<and> input_stats h userIndex = Some s \<longrightarrow>
             r = s \<and> h' = h) \<and>
        (input_stats h projectIndex = None \<and> input_stats h userIndex = None \<longrightarrow>
           r = length h \<and> h' = h @ [Stats_object default_stats])"
    unfolding selectBM25Stats_heap_returns [OF assms]
    by (cases "input_stats h projectIndex"; cases "input_stats h userIndex")
       (simp_all add: nullish_def)
next
  obtain pe ue where "index_hasEmbeddings h projectIndex = Some pe"
    "index_hasEmbeddings h userIndex = Some ue"
    using wf_input_hasEmbeddings [OF assms(1)] wf_input_hasEmbeddings [OF assms(2)] by blast
  then show "\<exists>b. hasAnyEmbeddings_heap h projectIndex userIndex = Some b"
    by (simp add: hasAnyEmbeddings_heap_def)
qed


lemma example_heap_wf: "wf_input example_heap (Some 0) \<and> wf_input example_heap None"
  by (simp add: wf_input_def wf_index_def example_heap_def deref_def array_at_def tool_at_def
      stats_at_def)

theorem scope_functions_frame_witness:
  "wf_input example_heap (Some 0) \<and> wf_input example_heap None \<and>
   input_stats example_heap (Some 0) = Some 2 \<and>
   input_tools example_heap (Some 0) = [3] \<and>
   (\<exists>h' r log rs.
      mergeIndexedTools_heap False example_heap (Some 0) None = Some (h', r, log) \<and>
      take (length example_heap) h' = example_heap \<and>
      length example_heap \<le> r \<and> deref h' r = Some (Array_object rs) \<and>
      set rs \<subseteq> set (input_tools example_heap None) \<union> set (input_tools example_heap (Some 0))) \<and>
   (\<exists>h' r.
      selectBM25Stats_heap example_heap (Some 0) None = Some (h', r) \<and>
      take (length example_heap) h' = example_heap \<and> r = 2 \<and> h' = example_heap) \<and>
   (\<exists>b. hasAnyEmbeddings_heap example_heap (Some 0) None = Some b)"
proof -
  have wf: "wf_input example_heap (Some 0)" "wf_input example_heap None"
    using example_heap_wf by simp_all
  have st: "input_stats example_heap (Some 0) = Some 2"
    by (simp add: input_stats_def example_heap_def deref_def)
  have ts: "input_tools example_heap (Some 0) = [3]"
    by (simp add: input_tools_def index_tools_def example_heap_def deref_def array_at_def)
  have 1: "\<exists>h' r log rs.
      mergeIndexedTools_heap False example_heap (Some 0) None = Some (h', r, log) \<and>
      take (length example_heap) h' = example_heap \<and>
      length example_heap \<le> r \<and> deref h' r = Some (Array_object rs) \<and>
      set rs \<subseteq> set (input_tools example_heap None) \<union> set (input_tools example_heap (Some 0))"
    using scope_functions_frame [OF wf, of False, THEN conjunct1] by blast
  have 2: "\<exists>h' r.
      selectBM25Stats_heap example_heap (Some 0) None = Some (h', r) \<and>
      take (length example_heap) h' = example_heap \<and> r = 2 \<and> h' = example_heap"
    using scope_functions_frame [OF wf, of False, THEN conjunct2, THEN conjunct1] st by blast
  have 3: "\<exists>b. hasAnyEmbeddings_heap example_heap (Some 0) None = Some b"
    using scope_functions_frame [OF wf, of False, THEN conjunct2, THEN conjunct2] .
  show ?thesis using wf st ts 1 2 3 by blast
qed

text \<open>
  Claim C7 as it is stated, no output sharing structure with an input, fails: the statistics that \<open>selectBM25Stats\<close> returns for the store
  \<open>example_heap\<close> are the object at address \<open>2\<close>, which was in the store before the call and is
  the very object the index at address \<open>0\<close> holds in \<open>bm25Stats\<close>; and the array that
  \<open>mergeIndexedTools\<close> returns holds the address \<open>3\<close>, the tool object of the index's own
  array.
\<close>

theorem scope_functions_alias_counterexample:
  "selectBM25Stats_heap example_heap (Some 0) None = Some (example_heap, 2) \<and>
   deref example_heap 0 = Some (Index_object 1 (Some 2) (Some False)) \<and>
   2 < length example_heap \<and>
   mergeIndexedTools_heap False example_heap (Some 0) None
     = Some (example_heap @ [Map_object [(''a'', 3)], Array_object [3]], 5, []) \<and>
   deref example_heap 1 = Some (Array_object [3]) \<and>
   3 < length example_heap"
  by (simp add: selectBM25Stats_heap_def mergeIndexedTools_heap_def index_bm25Stats_def
      index_tools_def heap_project_loop_body_def alloc_def example_heap_def deref_def array_at_def
      tool_at_def map_at_def heap_Map_set_def nullish_def Map_values_def Let_def
      example_tool_def)

end
